theory Spec2Isabelle
  imports Complex_Main
begin

section \<open>StockFlow: ledger reconciliation, import, backup and login\<close>

text \<open>
  A shallow embedding of the inventory application's logic: the dashboard totals
  (components/Dashboard.tsx), the transaction report (components/TransactionReport.tsx),
  the import, export, restore and reset handlers and the account status (App.tsx), the
  manual import parser (components/ImportModal.tsx) and the login check
  (components/LoginScreen.tsx).

  Modelling conventions, which hold for the whole development:
  \<^item> An amount is a rational number, the exact value of the double the code holds. The
    sums of the dashboard and of the report are stated in exact arithmetic. The import
    handler decides by comparing a difference with a tolerance, so there every addition
    and subtraction is rounded as binary64 does (to nearest, ties to even) and the
    literals \<open>0.01\<close> and \<open>0.05\<close> are the doubles nearest to them. \<open>NaN\<close>, the infinities and
    overflow are outside the model; only the import parser, whose \<open>parseFloat\<close> can answer
    \<open>NaN\<close>, has a number type with special values.
  \<^item> \<open>createdAt\<close> is an integer: every writer in the source sets it from \<open>Date.now()\<close>.
  \<^item> \<open>Array.prototype.sort\<close> is stable, so sorting with the comparator
    \<open>a.createdAt - b.createdAt\<close> is \<^const>\<open>sort_key\<close> on \<open>createdAt\<close>.
  \<^item> A \<open>Record<string, T>\<close> or \<open>Map<string, T>\<close> is a partial function on strings; stock codes
    that name a member of \<open>Object.prototype\<close> are outside the model.
  \<^item> Strings are ASCII.
\<close>

subsection \<open>Data model (types.ts)\<close>

datatype tx_type = IN | OUT | TEMP_USE

record StockItem =
  item_id :: string
  date :: string
  code :: string
  provider :: string
  phoneNumber :: string
  amount :: rat
  ttype :: tx_type
  orderNumber :: "string option"
  createdAt :: int
  createdBy :: "string option"

datatype ImportMode = ADD_STOCK | CALCULATE_USAGE | AUDIT_SYSTEM

datatype AccountStatus = OPEN | CLOSED

datatype audit_status = MATCH | MISMATCH

record AuditResult =
  ar_code :: string
  ar_provider :: string
  ar_phoneNumber :: "string option"
  systemBalance :: rat
  appBalance :: rat
  difference :: rat
  ar_status :: audit_status

subsection \<open>Double arithmetic (the \<open>number\<close> type)\<close>

text \<open>The number of binary digits of a positive integer.\<close>

function bit_length :: "int \<Rightarrow> int" where
  "bit_length n = (if n \<le> 0 then 0 else 1 + bit_length (n div 2))"
  by pat_completeness auto
termination
  by (relation "measure nat") auto

declare bit_length.simps [simp del]

definition pow2 :: "int \<Rightarrow> rat" where
  "pow2 k = (if 0 \<le> k then 2 ^ nat k else 1 / 2 ^ nat (- k))"

text \<open>For \<open>a > 0\<close>, the exponent \<open>e\<close> with \<open>2^e \<le> a < 2^(e+1)\<close>.\<close>

definition ilog2 :: "rat \<Rightarrow> int" where
  "ilog2 a =
     (let p = fst (quotient_of a); q = snd (quotient_of a);
          k = bit_length p - bit_length q
      in if pow2 k \<le> a then k else k - 1)"

definition round_half_even :: "rat \<Rightarrow> int" where
  "round_half_even n =
     (let f = \<lfloor>n\<rfloor>; r = n - of_int f in
      if r < 1 / 2 then f else if 1 / 2 < r then f + 1 else if even f then f else f + 1)"

text \<open>
  The double nearest to a rational, ties to the even significand: 53 significant bits, and
  below \<open>2^-1022\<close> the fixed spacing \<open>2^-1074\<close> of the subnormal numbers. This is the result
  of every arithmetic operation of the code on finite doubles, and the value of a decimal
  literal.
\<close>

definition round64 :: "rat \<Rightarrow> rat" where
  "round64 x =
     (if x = 0 then 0
      else
        (let a = \<bar>x\<bar>;
             e = max (ilog2 a) (- 1022);
             q = pow2 (e - 52);
             m = of_int (round_half_even (a / q)) * q
         in if x < 0 then - m else m))"

subsection \<open>Dashboard totals (Dashboard, stats)\<close>







subsection \<open>Per-code official balance (App.handleImport, officialInventoryMap)\<close>

text \<open>\<open>m.get(k) || 0\<close>: a missing key and a stored zero both read as zero.\<close>

definition get_or_zero :: "(string \<rightharpoonup> rat) \<Rightarrow> string \<Rightarrow> rat" where
  "get_or_zero m k = (case m k of None \<Rightarrow> 0 | Some v \<Rightarrow> if v = 0 then 0 else v)"

text \<open>One step of \<open>items.forEach\<close>: IN adds, OUT subtracts, TEMP\_USE leaves the map alone.\<close>

definition official_step :: "(string \<rightharpoonup> rat) \<Rightarrow> StockItem \<Rightarrow> (string \<rightharpoonup> rat)" where
  "official_step m item =
     (let currentOfficial = get_or_zero m (code item) in
      if ttype item = IN then m(code item \<mapsto> currentOfficial + amount item)
      else if ttype item = OUT then m(code item \<mapsto> currentOfficial - amount item)
      else m)"

definition officialInventoryMap :: "StockItem list \<Rightarrow> (string \<rightharpoonup> rat)" where
  "officialInventoryMap items = foldl official_step Map.empty items"

text \<open>
  The same loop with its arithmetic made explicit: \<open>rnd\<close> is applied to the result of each
  addition and subtraction. With \<^const>\<open>round64\<close> it is the loop as it runs in
  \<open>handleImport\<close>; with the identity it is the exact loop above.
\<close>

definition official_step_with ::
  "(rat \<Rightarrow> rat) \<Rightarrow> (string \<rightharpoonup> rat) \<Rightarrow> StockItem \<Rightarrow> (string \<rightharpoonup> rat)" where
  "official_step_with rnd m item =
     (let currentOfficial = get_or_zero m (code item) in
      if ttype item = IN then m(code item \<mapsto> rnd (currentOfficial + amount item))
      else if ttype item = OUT then m(code item \<mapsto> rnd (currentOfficial - amount item))
      else m)"

definition officialInventoryMap64 :: "StockItem list \<Rightarrow> (string \<rightharpoonup> rat)" where
  "officialInventoryMap64 items = foldl (official_step_with round64) Map.empty items"


subsection \<open>Running balance of one code (TransactionReport, calculatedTransactions)\<close>



text \<open>\<open>grouped[code]\<close>: the postings of one code, in the order of \<open>items\<close>.\<close>

definition grouped :: "StockItem list \<Rightarrow> string \<Rightarrow> StockItem list" where
  "grouped items c = filter (\<lambda>i. code i = c) items"




definition mk_item :: "string \<Rightarrow> string \<Rightarrow> tx_type \<Rightarrow> rat \<Rightarrow> int \<Rightarrow> StockItem" where
  "mk_item i c t a ts =
     \<lparr>item_id = i, date = ''01-Jan-2025'', code = c, provider = ''Celcom'',
      phoneNumber = ''0123'', amount = a, ttype = t, orderNumber = None,
      createdAt = ts, createdBy = None\<rparr>"

definition example_ledger :: "StockItem list" where
  "example_ledger =
     [mk_item ''a'' ''C101'' IN 100 1, mk_item ''b'' ''C101'' OUT 30 2,
      mk_item ''c'' ''C101'' TEMP_USE 20 3]"

subsection \<open>Account status (App, accountStatusMap)\<close>

text \<open>
  One step of the grouping loop: \<open>if (!transactionsByCode[c]) transactionsByCode[c] = [];
  transactionsByCode[c].push(item)\<close>.
\<close>

definition group_step :: "(string \<rightharpoonup> StockItem list) \<Rightarrow> StockItem \<Rightarrow> (string \<rightharpoonup> StockItem list)" where
  "group_step m item =
     (case m (code item) of
        None \<Rightarrow> m(code item \<mapsto> [item])
      | Some txs \<Rightarrow> m(code item \<mapsto> txs @ [item]))"

definition transactionsByCode :: "StockItem list \<Rightarrow> (string \<rightharpoonup> StockItem list)" where
  "transactionsByCode items = foldl group_step Map.empty items"

definition status_of_tx :: "StockItem \<Rightarrow> AccountStatus" where
  "status_of_tx lastTx = (if ttype lastTx = IN \<or> ttype lastTx = TEMP_USE then OPEN else CLOSED)"

text \<open>
  \<open>lastTx = txs[txs.length - 1]\<close> after the sort. A group is never empty (lemma
  \<open>transactionsByCode_eq\<close>), so the read is always in range.
\<close>

definition lastTx_of :: "StockItem list \<Rightarrow> StockItem" where
  "lastTx_of txs = last (sort_key createdAt txs)"

definition accountStatusMap :: "StockItem list \<Rightarrow> (string \<rightharpoonup> AccountStatus)" where
  "accountStatusMap items =
     (\<lambda>c. case transactionsByCode items c of
            None \<Rightarrow> None
          | Some txs \<Rightarrow> Some (status_of_tx (lastTx_of txs)))"

text \<open>\<open>accountStatusMap[item.code] || 'CLOSED'\<close>\<close>

definition currentStatus :: "(string \<rightharpoonup> AccountStatus) \<Rightarrow> string \<Rightarrow> AccountStatus" where
  "currentStatus m c = (case m c of None \<Rightarrow> CLOSED | Some s \<Rightarrow> s)"

subsection \<open>Import (App, handleImport)\<close>

text \<open>
  An imported entry: a stock item without \<open>id\<close>, \<open>createdAt\<close> and \<open>type\<close>. The manual parser
  hands over \<open>phoneNumber: undefined\<close> for a usage line of two fields, so the phone number may
  be undefined (\<open>None\<close>).
\<close>

record ImportedItem =
  im_date :: string
  im_code :: string
  im_provider :: string
  im_phoneNumber :: "string option"
  im_amount :: rat
  im_orderNumber :: "string option"
  im_createdBy :: "string option"

text \<open>
  \<open>{ ...item, id: newId, createdAt: timestamp, type: t }\<close> as a document \<open>batch.set\<close> accepts.
  \<open>batch.set\<close> throws on a field whose value is \<open>undefined\<close> (the SDK's default setting); that
  is the result \<open>None\<close>.
\<close>

definition spread_item :: "ImportedItem \<Rightarrow> string \<Rightarrow> int \<Rightarrow> tx_type \<Rightarrow> StockItem option" where
  "spread_item item newId timestamp t =
     (case im_phoneNumber item of
        None \<Rightarrow> None
      | Some phone \<Rightarrow>
          Some \<lparr>item_id = newId, date = im_date item, code = im_code item,
                provider = im_provider item, phoneNumber = phone, amount = im_amount item,
                ttype = t, orderNumber = im_orderNumber item, createdAt = timestamp,
                createdBy = im_createdBy item\<rparr>)"

text \<open>
  \<open>parseFloat(x.toFixed(2))\<close> for a double \<open>x \<ge> 0\<close>. Below \<open>10^21\<close>, \<open>toFixed\<close> writes the
  multiple of 1/100 nearest to the exact value of \<open>x\<close>, the larger one when two are equally
  near, and \<open>parseFloat\<close> reads the double nearest to that decimal. From \<open>10^21\<close> on, \<open>toFixed\<close>
  writes \<open>x\<close> in exponent notation and \<open>parseFloat\<close> reads \<open>x\<close> back.
\<close>

definition toFixed2 :: "rat \<Rightarrow> rat" where
  "toFixed2 x = (if x < 10 ^ 21 then round64 (of_int \<lfloor>x * 100 + 1 / 2\<rfloor> / 100) else x)"

definition audit_entry :: "(string \<rightharpoonup> rat) \<Rightarrow> ImportedItem \<Rightarrow> AuditResult" where
  "audit_entry officialMap item =
     (let appBal = get_or_zero officialMap (im_code item);
          diff = round64 (appBal - im_amount item)
      in \<lparr>ar_code = im_code item, ar_provider = im_provider item,
          ar_phoneNumber = im_phoneNumber item, systemBalance = im_amount item,
          appBalance = appBal, difference = diff,
          ar_status = (if \<bar>diff\<bar> < round64 (5 / 100) then MATCH else MISMATCH)\<rparr>)"

text \<open>
  The body of \<open>importedItems.forEach\<close> for the two posting modes. The state is the write
  batch (the documents handed to \<open>batch.set\<close>, in order) and \<open>count\<close>, or \<open>None\<close> once
  \<open>batch.set\<close> has thrown, which ends the loop; the entry comes with the identifier
  \<open>uuidv4()\<close> drew for it.
\<close>

definition import_step ::
  "ImportMode \<Rightarrow> (string \<rightharpoonup> AccountStatus) \<Rightarrow> (string \<rightharpoonup> rat) \<Rightarrow> int \<Rightarrow>
   (StockItem list \<times> nat) option \<Rightarrow> ImportedItem \<times> string \<Rightarrow> (StockItem list \<times> nat) option" where
  "import_step mode statusMap officialMap timestamp st entry =
     (case st of
        None \<Rightarrow> None
      | Some (batch, count) \<Rightarrow>
          (let item = fst entry; newId = snd entry in
           if mode = ADD_STOCK then
             (if currentStatus statusMap (im_code item) = CLOSED then
                (case spread_item item newId timestamp IN of
                   None \<Rightarrow> None
                 | Some newItem \<Rightarrow> Some (batch @ [newItem], count + 1))
              else Some (batch, count))
           else if mode = CALCULATE_USAGE then
             (if currentStatus statusMap (im_code item) = OPEN then
                (let currentBalance = get_or_zero officialMap (im_code item);
                     diff = round64 (currentBalance - im_amount item)
                 in if \<bar>diff\<bar> > round64 (1 / 100) then
                      (case spread_item item newId timestamp (if diff > 0 then OUT else IN) of
                         None \<Rightarrow> None
                       | Some newItem \<Rightarrow>
                           Some (batch @ [newItem\<lparr>amount := toFixed2 \<bar>diff\<bar>\<rparr>], count + 1))
                    else Some (batch, count))
              else Some (batch, count))
           else Some (batch, count)))"

text \<open>
  The store's fixed limit on the operations of one batch, as the comment in
  \<open>uploadCollection\<close> ("Firestore batch limit 500") and the specification state it.
\<close>

definition batch_limit :: nat where
  "batch_limit = 500"

text \<open>
  What \<open>handleImport\<close> ends with: the audit report; the batch the store has committed; the
  notice that there is nothing to sync; the exception of \<open>batch.set\<close>; or the store's refusal
  of a batch above its limit, which writes nothing.
\<close>

datatype import_outcome =
  AuditReport "AuditResult list"
| Synced "StockItem list"
| NoNewRecords
| ImportThrew
| CommitRefused

text \<open>
  \<open>uuid i\<close> is the identifier drawn for the \<open>i\<close>-th imported entry. The audit mode returns
  before anything is written; the other modes commit the batch when it is not empty. When
  \<open>batch.set\<close> throws, nothing is committed and no notification is set.
\<close>

definition handleImport ::
  "(nat \<Rightarrow> string) \<Rightarrow> int \<Rightarrow> StockItem list \<Rightarrow> ImportedItem list \<Rightarrow> ImportMode \<Rightarrow> import_outcome" where
  "handleImport uuid timestamp items importedItems mode =
     (if mode = AUDIT_SYSTEM
      then AuditReport (map (audit_entry (officialInventoryMap64 items)) importedItems)
      else
        (case foldl (import_step mode (accountStatusMap items) (officialInventoryMap64 items) timestamp)
                (Some ([], 0)) (zip importedItems (map uuid [0..<length importedItems])) of
           None \<Rightarrow> ImportThrew
         | Some (batch, count) \<Rightarrow>
             if count > 0 then
               (if length batch > batch_limit then CommitRefused else Synced batch)
             else NoNewRecords))"

text \<open>
  The difference the usage mode computes for an entry: the official balance of its code
  minus the imported ending balance.
\<close>

definition usage_diff :: "StockItem list \<Rightarrow> ImportedItem \<Rightarrow> rat" where
  "usage_diff items item =
     round64 (get_or_zero (officialInventoryMap64 items) (im_code item) - im_amount item)"

text \<open>
  What one entry does in the two posting modes: \<open>None\<close> when it is skipped, else the result of
  building the document for \<open>batch.set\<close>.
\<close>

definition add_stock_effect ::
  "StockItem list \<Rightarrow> int \<Rightarrow> ImportedItem \<times> string \<Rightarrow> StockItem option option" where
  "add_stock_effect items timestamp entry =
     (if currentStatus (accountStatusMap items) (im_code (fst entry)) = CLOSED
      then Some (spread_item (fst entry) (snd entry) timestamp IN)
      else None)"

definition usage_effect ::
  "StockItem list \<Rightarrow> int \<Rightarrow> ImportedItem \<times> string \<Rightarrow> StockItem option option" where
  "usage_effect items timestamp entry =
     (if currentStatus (accountStatusMap items) (im_code (fst entry)) = OPEN
         \<and> \<bar>usage_diff items (fst entry)\<bar> > round64 (1 / 100)
      then Some (map_option (\<lambda>newItem. newItem\<lparr>amount := toFixed2 \<bar>usage_diff items (fst entry)\<bar>\<rparr>)
                   (spread_item (fst entry) (snd entry) timestamp
                      (if usage_diff items (fst entry) > 0 then OUT else IN)))
      else None)"

text \<open>The documents a list of entries posts, in order.\<close>

definition posted_docs :: "(ImportedItem \<times> string \<Rightarrow> StockItem option option) \<Rightarrow> (ImportedItem \<times> string) list \<Rightarrow> StockItem list" where
  "posted_docs f es = List.map_filter (\<lambda>e. case f e of Some (Some d) \<Rightarrow> Some d | _ \<Rightarrow> None) es"

definition mk_entry :: "string \<Rightarrow> rat \<Rightarrow> ImportedItem" where
  "mk_entry c a =
     \<lparr>im_date = ''02-Jan-2025'', im_code = c, im_provider = ''Celcom'',
      im_phoneNumber = Some ''0123'', im_amount = a, im_orderNumber = None, im_createdBy = None\<rparr>"

definition example_uuid :: "nat \<Rightarrow> string" where
  "example_uuid i = replicate (Suc i) CHR ''u''"

subsection \<open>Manual import parsing (ImportModal, handleManualParse)\<close>

text \<open>White space as \<open>String.prototype.trim\<close> and the regular expression \<open>\s\<close> see it, in ASCII.\<close>

definition is_space :: "char \<Rightarrow> bool" where
  "is_space c = (c \<in> set [CHR 0x09, CHR 0x0A, CHR 0x0B, CHR 0x0C, CHR 0x0D, CHR '' ''])"

definition trim :: "string \<Rightarrow> string" where
  "trim s = rev (dropWhile is_space (rev (dropWhile is_space s)))"

text \<open>\<open>s.split('\n')\<close>: the pieces between line feeds; the empty string gives one empty piece.\<close>

fun split_nl :: "string \<Rightarrow> string list" where
  "split_nl [] = [[]]"
| "split_nl (c # cs) =
     (if c = CHR 0x0A then [] # split_nl cs
      else (case split_nl cs of [] \<Rightarrow> [[c]] | p # ps \<Rightarrow> (c # p) # ps))"

text \<open>
  \<open>s.split(/\s+/)\<close>: the pieces between maximal runs of white space, with an empty first or
  last piece when the string starts or ends with white space.
\<close>

function split_ws :: "string \<Rightarrow> string list" where
  "split_ws [] = [[]]"
| "split_ws (c # cs) =
     (if is_space c then [] # split_ws (dropWhile is_space cs)
      else (case split_ws cs of [] \<Rightarrow> [[c]] | p # ps \<Rightarrow> (c # p) # ps))"
  by pat_completeness auto
termination
  by (relation "measure length") (auto simp: length_dropWhile_le less_Suc_eq_le)

text \<open>
  The numbers \<open>parseFloat\<close> can answer. A finite value is the exact decimal the text denotes;
  its rounding to a double is not modelled.
\<close>

datatype jsnum = NaN | Finite rat | PosInfinity | NegInfinity

definition is_digit :: "char \<Rightarrow> bool" where
  "is_digit c = (c \<in> set ''0123456789'')"

definition digit_val :: "char \<Rightarrow> nat" where
  "digit_val c = of_char c - 48"

definition digits_val :: "string \<Rightarrow> nat" where
  "digits_val ds = foldl (\<lambda>n d. 10 * n + digit_val d) 0 ds"

text \<open>
  The exponent part at the head of a text, \<open>0\<close> when there is none: \<open>e\<close> or \<open>E\<close>, an optional
  sign and at least one digit.
\<close>

definition parse_exponent :: "string \<Rightarrow> int" where
  "parse_exponent r =
     (case r of
        [] \<Rightarrow> 0
      | c # r' \<Rightarrow>
          if c = CHR ''e'' \<or> c = CHR ''E'' then
            (let neg = (r' \<noteq> [] \<and> hd r' = CHR ''-'');
                 signed = (r' \<noteq> [] \<and> (hd r' = CHR ''-'' \<or> hd r' = CHR ''+''));
                 ds = takeWhile is_digit (if signed then tl r' else r')
             in if ds = [] then 0
                else if neg then - int (digits_val ds) else int (digits_val ds))
          else 0)"

text \<open>
  The longest prefix that is an unsigned decimal literal: \<open>Infinity\<close>, or digits with an
  optional fraction, or a fraction alone, each with an optional exponent.
\<close>

definition parse_unsigned :: "string \<Rightarrow> jsnum" where
  "parse_unsigned r =
     (if take 8 r = ''Infinity'' then PosInfinity
      else
        (let ip = takeWhile is_digit r;
             r1 = dropWhile is_digit r;
             has_dot = (r1 \<noteq> [] \<and> hd r1 = CHR ''.'');
             fp = (if has_dot then takeWhile is_digit (tl r1) else []);
             r2 = (if has_dot then dropWhile is_digit (tl r1) else r1)
         in if ip = [] \<and> fp = [] then NaN
            else
              (let m = of_nat (digits_val ip) + of_nat (digits_val fp) / 10 ^ length fp;
                   e = parse_exponent r2
               in Finite (if 0 \<le> e then m * 10 ^ nat e else m / 10 ^ nat (- e)))))"

definition negate :: "jsnum \<Rightarrow> jsnum" where
  "negate v = (case v of NaN \<Rightarrow> NaN | Finite x \<Rightarrow> Finite (- x)
               | PosInfinity \<Rightarrow> NegInfinity | NegInfinity \<Rightarrow> PosInfinity)"

definition parseFloat :: "string \<Rightarrow> jsnum" where
  "parseFloat s =
     (case dropWhile is_space s of
        [] \<Rightarrow> NaN
      | c # r \<Rightarrow>
          if c = CHR ''-'' then negate (parse_unsigned r)
          else if c = CHR ''+'' then parse_unsigned r
          else parse_unsigned (c # r))"

record parsed_item =
  p_date :: string
  p_code :: string
  p_provider :: string
  p_phoneNumber :: "string option"
  p_amount :: jsnum

text \<open>\<open>parts[i]\<close>, which is \<open>undefined\<close> (\<open>None\<close>) past the end.\<close>

definition at_index :: "string list \<Rightarrow> nat \<Rightarrow> string option" where
  "at_index parts i = (if i < length parts then Some (parts ! i) else None)"

text \<open>
  The callback of \<open>lines.map\<close>: \<open>None\<close> is the \<open>null\<close> that the following \<open>filter\<close> drops.
  \<open>displayDate\<close> is \<open>formatDateForDisplay(selectedDate)\<close>. Every \<open>parts ! i\<close> below is
  guarded by a length test, as in the source. In the usage mode \<open>!code || !provider\<close> holds
  when the field is missing or empty.
\<close>

definition parse_line :: "ImportMode \<Rightarrow> string \<Rightarrow> string \<Rightarrow> parsed_item option" where
  "parse_line mode displayDate line =
     (let cleanLine = trim line in
      if cleanLine = [] then None
      else if mode = AUDIT_SYSTEM then
        (let parts = split_ws cleanLine in
         if length parts < 3 then None
         else
           (let code0 = trim (remove1 CHR ''-'' (parts ! 1));
                lastPart = parts ! (length parts - 1);
                amt = parseFloat (filter (\<lambda>c. c \<noteq> CHR '','') lastPart);
                code1 = (if code0 = [] \<and> length parts > 2 then parts ! 2 else code0);
                prov = (if length parts > 4 then parts ! 3 else ''System'');
                phone = (if length parts > 4 then parts ! 2
                         else (if parts ! 2 = [] then [] else parts ! 2))
            in if amt = NaN then None
               else Some \<lparr>p_date = displayDate, p_code = code1, p_provider = prov,
                          p_phoneNumber = Some phone, p_amount = amt\<rparr>))
      else if mode = CALCULATE_USAGE then
        (let parts = split_ws cleanLine;
             code1 = at_index parts 0;
             prov = at_index parts 1;
             phone = at_index parts 2;
             amt = (if length parts \<ge> 4
                    then (let val = parseFloat (parts ! (length parts - 1))
                          in if val \<noteq> NaN then val else Finite 0)
                    else Finite 0)
         in case (code1, prov) of
              (Some c, Some p) \<Rightarrow>
                if c = [] \<or> p = [] then None
                else Some \<lparr>p_date = displayDate, p_code = c, p_provider = p,
                           p_phoneNumber = phone, p_amount = amt\<rparr>
            | _ \<Rightarrow> None)
      else
        (let parts = split_ws cleanLine in
         if length parts < 5 then None
         else Some \<lparr>p_date = parts ! 0, p_code = parts ! 1, p_provider = parts ! 2,
                    p_phoneNumber = Some (parts ! 3), p_amount = parseFloat (parts ! 4)\<rparr>))"

datatype manual_outcome =
  ParseError string
| Imported "parsed_item list" ImportMode

definition handleManualParse :: "ImportMode \<Rightarrow> string \<Rightarrow> string \<Rightarrow> manual_outcome" where
  "handleManualParse mode displayDate inputText =
     (let lines = split_nl (trim inputText);
          parsed = List.map_filter (parse_line mode displayDate) lines
      in if length parsed = 0
         then ParseError ''Could not parse text. Please check the format or use Smart Import.''
         else Imported parsed mode)"

text \<open>The white-space separated fields of a line, none for a blank line.\<close>

definition line_fields :: "string \<Rightarrow> string list" where
  "line_fields line = (if trim line = [] then [] else split_ws (trim line))"

text \<open>A field is numeric when \<open>parseFloat\<close> reads a number at its start.\<close>

definition numeric :: "string \<Rightarrow> bool" where
  "numeric s = (parseFloat s \<noteq> NaN)"

subsection \<open>The document store (firebase/firestore: writeBatch, set, delete, commit)\<close>

datatype ShiftType = Morning | Noon1 | Noon2 | Night | OFF | AL

datatype ViewType = Dashboard | ListView | Reports | TransactionEntry | TransactionReport
  | ScheduleV | NotesV | UsersV

datatype UserRole = Admin | Staff

record EmployeeRequest =
  req_id :: string
  req_day :: string
  req_shift :: string

record Employee =
  emp_id :: string
  emp_name :: string
  primaryShift :: "string option"
  requests :: "EmployeeRequest list option"

record Assignment =
  employeeId :: string
  employeeName :: string
  shift :: ShiftType

record DaySchedule =
  day :: string
  assignments :: "Assignment list"

record Note =
  note_id :: string
  content :: string
  author :: string
  color :: string
  note_createdAt :: int
  imageUrl :: "string option"

record User =
  user_id :: string
  username :: string
  password :: string
  name :: string
  role :: UserRole
  permissions :: "ViewType list option"

text \<open>A stored document is a value of one of the five entity types.\<close>

datatype doc =
  ItemDoc StockItem
| EmployeeDoc Employee
| DayDoc DaySchedule
| NoteDoc Note
| UserDoc User

datatype write_op =
  SetDoc string string doc
| DeleteDoc string string

text \<open>
  A write batch collects operations until it is committed. The SDK marks a committed batch,
  and every later \<open>set\<close>, \<open>delete\<close> or \<open>commit\<close> on it throws ("A write batch can no longer be
  used after commit() has been called"). \<open>doc(db, coll, id)\<close> throws when the identifier is
  missing or empty.
\<close>

record WriteBatch =
  mutations :: "write_op list"
  committed :: bool

datatype store_error = BatchAlreadyCommitted | InvalidDocumentReference | TooManyWrites

definition writeBatch :: WriteBatch where
  "writeBatch = \<lparr>mutations = [], committed = False\<rparr>"

definition batch_set :: "WriteBatch \<Rightarrow> string \<Rightarrow> string \<Rightarrow> doc \<Rightarrow> store_error + WriteBatch" where
  "batch_set b coll k d =
     (if committed b then Inl BatchAlreadyCommitted
      else Inr (b\<lparr>mutations := mutations b @ [SetDoc coll k d]\<rparr>))"

definition batch_delete :: "WriteBatch \<Rightarrow> string \<Rightarrow> string \<Rightarrow> store_error + WriteBatch" where
  "batch_delete b coll k =
     (if committed b then Inl BatchAlreadyCommitted
      else Inr (b\<lparr>mutations := mutations b @ [DeleteDoc coll k]\<rparr>))"

text \<open>
  The store: the documents of each collection, keyed by identifier, and the log of the
  batches committed so far. A commit applies its operations in order.
\<close>

record store =
  docs :: "string \<Rightarrow> (string \<times> doc) list"
  commit_log :: "write_op list list"

definition apply_op :: "(string \<Rightarrow> (string \<times> doc) list) \<Rightarrow> write_op \<Rightarrow> (string \<Rightarrow> (string \<times> doc) list)" where
  "apply_op ds w =
     (case w of
        SetDoc coll k d \<Rightarrow>
          ds(coll := (if k \<in> set (map fst (ds coll))
                      then map (\<lambda>(k', d'). if k' = k then (k', d) else (k', d')) (ds coll)
                      else ds coll @ [(k, d)]))
      | DeleteDoc coll k \<Rightarrow> ds(coll := filter (\<lambda>(k', d'). k' \<noteq> k) (ds coll)))"

definition store_commit :: "store \<Rightarrow> write_op list \<Rightarrow> store" where
  "store_commit st ops =
     \<lparr>docs = foldl apply_op (docs st) ops, commit_log = commit_log st @ [ops]\<rparr>"

text \<open>
  \<open>await batch.commit()\<close>: the result is the marked batch and the store after the commit.
  A batch with no operation sends nothing. The store refuses a batch with more operations
  than its limit and writes none of them.
\<close>

definition batch_commit :: "WriteBatch \<Rightarrow> store \<Rightarrow> store_error + (WriteBatch \<times> store)" where
  "batch_commit b st =
     (if committed b then Inl BatchAlreadyCommitted
      else if length (mutations b) > batch_limit then Inl TooManyWrites
      else Inr (b\<lparr>committed := True\<rparr>,
                if mutations b = [] then st else store_commit st (mutations b)))"

subsection \<open>Restore (App, handleRestoreData and uploadCollection)\<close>

text \<open>\<open>item.id || item.day\<close>: the identifier when there is a non-empty one, else the day.\<close>

definition doc_key :: "doc \<Rightarrow> string option" where
  "doc_key d =
     (let nonempty = (\<lambda>s. if s = [] then None else Some s) in
      case d of
        ItemDoc i \<Rightarrow> nonempty (item_id i)
      | EmployeeDoc e \<Rightarrow> nonempty (emp_id e)
      | DayDoc s \<Rightarrow> nonempty (day s)
      | NoteDoc n \<Rightarrow> nonempty (note_id n)
      | UserDoc u \<Rightarrow> nonempty (user_id u))"

text \<open>
  The \<open>for\<close> loop of \<open>uploadCollection\<close>. The batch \<open>b\<close> is the one created before the loop;
  no other batch is created. The result is the error thrown, or the batch and \<open>opCount\<close>
  after the last record, together with the store.
\<close>

fun upload_loop ::
  "string \<Rightarrow> WriteBatch \<Rightarrow> nat \<Rightarrow> store \<Rightarrow> doc list \<Rightarrow> (store_error + WriteBatch \<times> nat) \<times> store" where
  "upload_loop collName b opCount st [] = (Inr (b, opCount), st)"
| "upload_loop collName b opCount st (item # rest) =
     (case doc_key item of
        None \<Rightarrow> (Inl InvalidDocumentReference, st)
      | Some k \<Rightarrow>
          (case batch_set b collName k item of
             Inl e \<Rightarrow> (Inl e, st)
           | Inr b1 \<Rightarrow>
               if opCount + 1 \<ge> 450 then
                 (case batch_commit b1 st of
                    Inl e \<Rightarrow> (Inl e, st)
                  | Inr (b2, st2) \<Rightarrow> upload_loop collName b2 0 st2 rest)
               else upload_loop collName b1 (opCount + 1) st rest))"

text \<open>The first component is the error that escapes, if any.\<close>

definition uploadCollection :: "string \<Rightarrow> doc list \<Rightarrow> store \<Rightarrow> store_error option \<times> store" where
  "uploadCollection collName data st =
     (if length data = 0 then (None, st)
      else
        (case upload_loop collName writeBatch 0 st data of
           (Inl e, st1) \<Rightarrow> (Some e, st1)
         | (Inr (b, opCount), st1) \<Rightarrow>
             if opCount > 0 then
               (case batch_commit b st1 of
                  Inl e \<Rightarrow> (Some e, st1)
                | Inr (b2, st2) \<Rightarrow> (None, st2))
             else (None, st1)))"

text \<open>
  The parsed backup file with its five keys; \<open>users\<close> may be absent. A collection that is
  missing reads as empty, which \<open>uploadCollection\<close> treats alike.
\<close>

record backup =
  b_items :: "doc list"
  b_employees :: "doc list"
  b_schedule :: "doc list"
  b_notes :: "doc list"
  b_users :: "doc list option"

text \<open>Uploads in sequence; the first error skips the rest, as the \<open>try\<close> block does.\<close>

fun upload_all :: "(string \<times> doc list) list \<Rightarrow> store \<Rightarrow> store_error option \<times> store" where
  "upload_all [] st = (None, st)"
| "upload_all ((collName, data) # others) st =
     (case uploadCollection collName data st of
        (Some e, st1) \<Rightarrow> (Some e, st1)
      | (None, st1) \<Rightarrow> upload_all others st1)"

definition handleRestoreData :: "bool \<Rightarrow> backup \<Rightarrow> store \<Rightarrow> store_error option \<times> store" where
  "handleRestoreData confirmed parsed st =
     (if confirmed then
        upload_all
          ([(''inventory'', b_items parsed), (''employees'', b_employees parsed),
            (''schedule'', b_schedule parsed), (''notes'', b_notes parsed)]
           @ (case b_users parsed of None \<Rightarrow> [] | Some us \<Rightarrow> [(''users'', us)]))
          st
      else (None, st))"

text \<open>A collection of \<open>n\<close> stock items with distinct identifiers.\<close>

definition sample_docs :: "nat \<Rightarrow> doc list" where
  "sample_docs n = map (\<lambda>i. ItemDoc (mk_item (example_uuid i) ''C101'' IN 1 (int i))) [0..<n]"

definition empty_store :: store where
  "empty_store = \<lparr>docs = (\<lambda>c. []), commit_log = []\<rparr>"

subsection \<open>Reset (App, handleResetData and clearColl)\<close>

text \<open>\<open>snap.docs.forEach(d => batch.delete(d.ref))\<close>\<close>

fun delete_all :: "string \<Rightarrow> WriteBatch \<Rightarrow> (string \<times> doc) list \<Rightarrow> store_error + WriteBatch" where
  "delete_all collName b [] = Inr b"
| "delete_all collName b ((k, d) # rest) =
     (case batch_delete b collName k of
        Inl e \<Rightarrow> Inl e
      | Inr b1 \<Rightarrow> delete_all collName b1 rest)"

definition clearColl :: "string \<Rightarrow> store \<Rightarrow> store_error option \<times> store" where
  "clearColl collName st =
     (let snap = docs st collName in
      case delete_all collName writeBatch snap of
        Inl e \<Rightarrow> (Some e, st)
      | Inr b \<Rightarrow>
          (case batch_commit b st of
             Inl e \<Rightarrow> (Some e, st)
           | Inr (b2, st2) \<Rightarrow> (None, st2)))"

fun clear_all :: "string list \<Rightarrow> store \<Rightarrow> store_error option \<times> store" where
  "clear_all [] st = (None, st)"
| "clear_all (collName # others) st =
     (case clearColl collName st of
        (Some e, st1) \<Rightarrow> (Some e, st1)
      | (None, st1) \<Rightarrow> clear_all others st1)"

definition handleResetData :: "bool \<Rightarrow> store \<Rightarrow> store_error option \<times> store" where
  "handleResetData confirmed st =
     (if confirmed then clear_all [''inventory'', ''schedule'', ''notes'', ''employees''] st
      else (None, st))"

subsection \<open>Login (LoginScreen, handleLogin)\<close>

text \<open>\<open>String.prototype.toLowerCase\<close> on ASCII text.\<close>

definition lower_char :: "char \<Rightarrow> char" where
  "lower_char c =
     (if c \<in> set ''ABCDEFGHIJKLMNOPQRSTUVWXYZ'' then char_of (of_char c + (32::nat)) else c)"

definition toLowerCase :: "string \<Rightarrow> string" where
  "toLowerCase s = map lower_char s"

record login_form =
  f_username :: string
  f_password :: string
  f_error :: "string option"

text \<open>
  The second component is the user \<open>onLogin\<close> is called with, if it is called. On failure
  the form shows the error and its password field is emptied.
\<close>

definition handleLogin :: "User list \<Rightarrow> login_form \<Rightarrow> login_form \<times> User option" where
  "handleLogin users form =
     (let failed = (form\<lparr>f_error := Some ''Invalid username or password.'', f_password := []\<rparr>, None)
      in case List.find (\<lambda>u. toLowerCase (username u) = toLowerCase (f_username form)) users of
           None \<Rightarrow> failed
         | Some user \<Rightarrow> if password user = f_password form then (form, Some user) else failed)"

definition mk_user :: "string \<Rightarrow> string \<Rightarrow> string \<Rightarrow> User" where
  "mk_user i u p =
     \<lparr>user_id = i, username = u, password = p, name = u, role = Staff, permissions = None\<rparr>"

subsection \<open>Backup export (App, handleExportData)\<close>

record app_state =
  st_items :: "StockItem list"
  st_employees :: "Employee list"
  st_schedule :: "DaySchedule list"
  st_notes :: "Note list"
  st_users :: "User list"

text \<open>
  \<open>exportData = { items, employees, schedule, notes, users }\<close>, the object that is
  serialised into the file: its keys in order, each with its collection.
\<close>

definition exportData :: "app_state \<Rightarrow> (string \<times> doc list) list" where
  "exportData s =
     [(''items'', map ItemDoc (st_items s)),
      (''employees'', map EmployeeDoc (st_employees s)),
      (''schedule'', map DayDoc (st_schedule s)),
      (''notes'', map NoteDoc (st_notes s)),
      (''users'', map UserDoc (st_users s))]"

text \<open>\<open>JSON.parse\<close> of the exported file, as \<open>handleRestoreData\<close> reads it, key by key.\<close>

definition parse_backup :: "(string \<times> doc list) list \<Rightarrow> backup" where
  "parse_backup obj =
     (let field = (\<lambda>k. case map_of obj k of None \<Rightarrow> [] | Some ds \<Rightarrow> ds) in
      \<lparr>b_items = field ''items'', b_employees = field ''employees'',
       b_schedule = field ''schedule'', b_notes = field ''notes'',
       b_users = map_of obj ''users''\<rparr>)"

definition example_text :: string where
  "example_text = ''C101 Celcom'' @ [CHR 0x0A] @ ''   '' @ [CHR 0x0A] @ ''C102 Digi 0199 7.5''"

text \<open>The operation \<open>batch.set(doc(db, collName, item.id || item.day), item)\<close> queues.\<close>

definition set_op :: "string \<Rightarrow> doc \<Rightarrow> write_op" where
  "set_op collName d = SetDoc collName (case doc_key d of None \<Rightarrow> [] | Some k \<Rightarrow> k) d"

text \<open>Every record has an identifier or a day.\<close>

definition keyed :: "doc list \<Rightarrow> bool" where
  "keyed data = list_all (\<lambda>d. doc_key d \<noteq> None) data"

text \<open>The test of \<open>users.find\<close>: the user names agree up to case.\<close>

definition matches :: "login_form \<Rightarrow> User \<Rightarrow> bool" where
  "matches form u = (toLowerCase (username u) = toLowerCase (f_username form))"

text \<open>
  Equality up to case, said without \<open>toLowerCase\<close>: the texts have the same length and agree
  position by position, where a capital letter agrees with its small letter.
\<close>

definition letter_pairs :: "(char \<times> char) list" where
  "letter_pairs = zip ''ABCDEFGHIJKLMNOPQRSTUVWXYZ'' ''abcdefghijklmnopqrstuvwxyz''"

definition same_letter :: "char \<Rightarrow> char \<Rightarrow> bool" where
  "same_letter c d = (c = d \<or> (c, d) \<in> set letter_pairs \<or> (d, c) \<in> set letter_pairs)"

definition eq_ignore_case :: "string \<Rightarrow> string \<Rightarrow> bool" where
  "eq_ignore_case s t = list_all2 same_letter s t"

definition example_users :: "User list" where
  "example_users =
     [mk_user ''0'' ''alice'' ''pw'', mk_user ''1'' ''Weng'' ''pw'', mk_user ''2'' ''weng'' ''other'']"

definition example_form :: "string \<Rightarrow> string \<Rightarrow> login_form" where
  "example_form u p = \<lparr>f_username = u, f_password = p, f_error = None\<rparr>"

text \<open>A store whose inventory holds 501 stock items and whose notes hold one memo.\<close>

definition sample_collection :: "nat \<Rightarrow> (string \<times> doc) list" where
  "sample_collection n =
     map (\<lambda>i. (example_uuid i, ItemDoc (mk_item (example_uuid i) ''C101'' IN 1 (int i)))) [0..<n]"

definition large_store :: store where
  "large_store =
     \<lparr>docs = (\<lambda>c. if c = ''inventory'' then sample_collection 501
                   else if c = ''notes''
                   then [(''n1'', NoteDoc \<lparr>note_id = ''n1'', content = ''memo'', author = ''Weng'',
                                           color = ''yellow'', note_createdAt = 1, imageUrl = None\<rparr>)]
                   else []),
      commit_log = []\<rparr>"

section \<open>Properties\<close>

subsection \<open>Balances\<close>














subsection \<open>Account status\<close>

lemma group_fold:
  "foldl group_step m items c =
     (case m c of
        None \<Rightarrow> if grouped items c = [] then None else Some (grouped items c)
      | Some txs \<Rightarrow> Some (txs @ grouped items c))"
proof (induction items arbitrary: m)
  case Nil
  then show ?case by (simp add: grouped_def split: option.splits)
next
  case (Cons x xs)
  have step: "group_step m x c =
      (if code x = c then Some ((case m c of None \<Rightarrow> [] | Some txs \<Rightarrow> txs) @ [x]) else m c)"
    by (simp add: group_step_def split: option.splits)
  have "foldl group_step m (x # xs) c = foldl group_step (group_step m x) xs c" by simp
  also have "\<dots> = (case group_step m x c of
        None \<Rightarrow> if grouped xs c = [] then None else Some (grouped xs c)
      | Some txs \<Rightarrow> Some (txs @ grouped xs c))" by (rule Cons.IH)
  finally show ?case
    by (simp add: step grouped_def split: option.splits)
qed

lemma transactionsByCode_eq:
  "transactionsByCode items c = (if grouped items c = [] then None else Some (grouped items c))"
  by (simp add: transactionsByCode_def group_fold)

lemma accountStatusMap_eq:
  "accountStatusMap items c =
     (if grouped items c = [] then None else Some (status_of_tx (lastTx_of (grouped items c))))"
  by (simp add: accountStatusMap_def transactionsByCode_eq)

lemma lastTx_in: "txs \<noteq> [] \<Longrightarrow> lastTx_of txs \<in> set txs"
proof -
  assume "txs \<noteq> []"
  then have "sort_key createdAt txs \<noteq> []" by (metis length_sort length_0_conv)
  then have "last (sort_key createdAt txs) \<in> set (sort_key createdAt txs)" by (rule last_in_set)
  then show ?thesis by (simp add: lastTx_of_def)
qed

lemma sorted_le_last: "sorted xs \<Longrightarrow> (x::int) \<in> set xs \<Longrightarrow> x \<le> last xs"
  by (induction xs) auto

lemma lastTx_latest:
  assumes "tx \<in> set txs"
  shows "createdAt tx \<le> createdAt (lastTx_of txs)"
proof -
  let ?s = "sort_key createdAt txs"
  have ne: "?s \<noteq> []" using assms by (metis empty_iff list.set(1) set_sort)
  have srt: "sorted (map createdAt ?s)" by (rule sorted_sort_key)
  have "createdAt tx \<in> set (map createdAt ?s)" using assms by simp
  then have "createdAt tx \<le> last (map createdAt ?s)" using srt by (intro sorted_le_last)
  then show ?thesis using ne by (simp add: lastTx_of_def last_map)
qed

text \<open>
  Claim C4. For every stock code with at least one transaction, the status is decided by
  the type of the code's most recent transaction, the last one once the code's
  transactions are sorted by creation time (no transaction of the code is newer): OPEN
  when that type is IN or TEMP\_USE, CLOSED when it is OUT.
\<close>

theorem status_follows_latest_transaction:
  assumes "grouped items c \<noteq> []"
  shows "\<exists>lastTx. lastTx = last (sort_key createdAt (grouped items c))
     \<and> lastTx \<in> set items \<and> code lastTx = c
     \<and> (\<forall>tx \<in> set items. code tx = c \<longrightarrow> createdAt tx \<le> createdAt lastTx)
     \<and> (ttype lastTx = IN \<or> ttype lastTx = TEMP_USE \<longrightarrow> accountStatusMap items c = Some OPEN)
     \<and> (ttype lastTx = OUT \<longrightarrow> accountStatusMap items c = Some CLOSED)"
proof -
  let ?l = "lastTx_of (grouped items c)"
  have mem: "?l \<in> set (grouped items c)" using assms by (rule lastTx_in)
  have latest: "createdAt tx \<le> createdAt ?l" if "tx \<in> set items" "code tx = c" for tx
    using that by (intro lastTx_latest) (simp add: grouped_def)
  have st: "accountStatusMap items c = Some (status_of_tx ?l)"
    using assms by (simp add: accountStatusMap_eq)
  show ?thesis
    using mem latest st by (auto simp: lastTx_of_def grouped_def status_of_tx_def)
qed

theorem status_follows_latest_transaction_witness:
  "grouped example_ledger ''C101'' \<noteq> []
   \<and> last (sort_key createdAt (grouped example_ledger ''C101'')) = mk_item ''c'' ''C101'' TEMP_USE 20 3
   \<and> accountStatusMap example_ledger ''C101'' = Some OPEN"
proof -
  have ne: "grouped example_ledger ''C101'' \<noteq> []"
    by (simp add: grouped_def example_ledger_def mk_item_def)
  have l: "last (sort_key createdAt (grouped example_ledger ''C101'')) =
      mk_item ''c'' ''C101'' TEMP_USE 20 3"
    by (simp add: grouped_def example_ledger_def mk_item_def)
  have t: "ttype (mk_item ''c'' ''C101'' TEMP_USE 20 3) = TEMP_USE"
    by (simp add: mk_item_def)
  from status_follows_latest_transaction [OF ne] show ?thesis
    using ne l t by auto
qed

subsection \<open>Double arithmetic\<close>

text \<open>
  The rounding on known values: the doubles 0.01 and 0.05, an integer, the sum
  \<open>0.1 + 0.2\<close>, which is not the double 0.3, two ties, and a negative number.
\<close>

lemma round64_examples:
  "round64 (1 / 100) = 5764607523034235 / 576460752303423488"
  "round64 (5 / 100) = 3602879701896397 / 72057594037927936"
  "round64 100 = 100"
  "round64 (round64 (1 / 10) + round64 (2 / 10)) = 1351079888211149 / 4503599627370496"
  "round64 (3 / 10) = 5404319552844595 / 18014398509481984"
  "round64 (2 ^ 53 + 1) = 2 ^ 53"
  "round64 (2 ^ 53 + 3) = 2 ^ 53 + 4"
  "round64 (- (1 / 3)) = - (6004799503160661 / 18014398509481984)"
  by code_simp+

subsection \<open>Import\<close>

lemma official_step_exact: "official_step_with (\<lambda>x. x) = official_step"
  by (simp add: fun_eq_iff official_step_with_def official_step_def)

lemma official_map_exact: "foldl (official_step_with (\<lambda>x. x)) Map.empty items = officialInventoryMap items"
  by (simp add: official_step_exact officialInventoryMap_def)






lemma add_step:
  "import_step ADD_STOCK (accountStatusMap items) om ts (Some (b, n)) e =
     (case add_stock_effect items ts e of
        None \<Rightarrow> Some (b, n)
      | Some None \<Rightarrow> None
      | Some (Some d) \<Rightarrow> Some (b @ [d], n + 1))"
  by (simp add: import_step_def add_stock_effect_def Let_def split: option.splits)

lemma usage_step:
  "import_step CALCULATE_USAGE (accountStatusMap items) (officialInventoryMap64 items) ts (Some (b, n)) e =
     (case usage_effect items ts e of
        None \<Rightarrow> Some (b, n)
      | Some None \<Rightarrow> None
      | Some (Some d) \<Rightarrow> Some (b @ [d], n + 1))"
  by (simp add: import_step_def usage_effect_def usage_diff_def Let_def split: option.splits)

lemma import_step_None: "import_step mode sm om ts None e = None"
  by (simp add: import_step_def)

lemma foldl_import_None: "foldl (import_step mode sm om ts) None es = None"
  by (induction es) (simp_all add: import_step_None)

text \<open>The documents a list of effects posts, when none throws.\<close>

lemma effect_fold:
  assumes "\<And>b n e. step (Some (b, n)) e =
     (case f e of None \<Rightarrow> Some (b, n) | Some None \<Rightarrow> None | Some (Some d) \<Rightarrow> Some (b @ [d], n + 1))"
    and "\<And>es. foldl step None es = None"
  shows "foldl step (Some (b, n)) es =
     (if Some None \<in> set (map f es) then None
      else Some (b @ List.map_filter (\<lambda>e. case f e of Some (Some d) \<Rightarrow> Some d | _ \<Rightarrow> None) es,
                 n + length (List.map_filter (\<lambda>e. case f e of Some (Some d) \<Rightarrow> Some d | _ \<Rightarrow> None) es)))"
proof (induction es arbitrary: b n)
  case Nil
  then show ?case by simp
next
  case (Cons e es)
  show ?case
  proof (cases "f e")
    case None
    then have "step (Some (b, n)) e = Some (b, n)" by (simp add: assms(1))
    then show ?thesis using None Cons.IH [of b n] by simp
  next
    case (Some r)
    show ?thesis
    proof (cases r)
      case None
      then have "step (Some (b, n)) e = None" using Some by (simp add: assms(1))
      then show ?thesis using Some None by (simp add: assms(2))
    next
      case (Some d)
      then have "step (Some (b, n)) e = Some (b @ [d], n + 1)" using \<open>f e = Some r\<close> by (simp add: assms(1))
      then show ?thesis using Some \<open>f e = Some r\<close> Cons.IH [of "b @ [d]" "n + 1"] by simp
    qed
  qed
qed

lemma handleImport_effects:
  assumes "mode = ADD_STOCK \<and> f = add_stock_effect items ts \<or>
           mode = CALCULATE_USAGE \<and> f = usage_effect items ts"
  shows "handleImport uuid ts items imported mode =
     (let es = zip imported (map uuid [0..<length imported]) in
      if Some None \<in> set (map f es) then ImportThrew
      else if posted_docs f es = [] then NoNewRecords
      else if batch_limit < length (posted_docs f es) then CommitRefused
      else Synced (posted_docs f es))"
proof -
  let ?step = "import_step mode (accountStatusMap items) (officialInventoryMap64 items) ts"
  have step: "?step (Some (b, n)) e =
     (case f e of None \<Rightarrow> Some (b, n) | Some None \<Rightarrow> None | Some (Some d) \<Rightarrow> Some (b @ [d], n + 1))"
    for b n e
    using assms by (elim disjE) (simp_all add: add_step usage_step)
  have none: "foldl ?step None es = None" for es by (rule foldl_import_None)
  have m: "mode \<noteq> AUDIT_SYSTEM" using assms by auto
  show ?thesis
    unfolding handleImport_def posted_docs_def Let_def
    using m by (simp add: effect_fold [of ?step f, OF step none])
qed

lemma add_effect_eq:
  "add_stock_effect items ts (e, i) =
     (if currentStatus (accountStatusMap items) (im_code e) = CLOSED then
        (case im_phoneNumber e of
           None \<Rightarrow> Some None
         | Some phone \<Rightarrow>
             Some (Some \<lparr>item_id = i, date = im_date e, code = im_code e, provider = im_provider e,
                    phoneNumber = phone, amount = im_amount e, ttype = IN,
                    orderNumber = im_orderNumber e, createdAt = ts, createdBy = im_createdBy e\<rparr>))
      else None)"
  by (simp add: add_stock_effect_def spread_item_def split: option.splits)


text \<open>
  An effect that posts for the entries with \<open>P\<close>, building the document with \<open>D\<close> from the
  entry, its identifier and its phone number.
\<close>

lemma effect_throws:
  assumes "\<And>e i. f (e, i) =
     (if P e then (case im_phoneNumber e of None \<Rightarrow> Some None | Some ph \<Rightarrow> Some (Some (D e i ph)))
      else None)"
  shows "Some None \<in> set (map f es) \<longleftrightarrow>
     None \<in> set (map (\<lambda>(e, i). im_phoneNumber e) (filter (\<lambda>(e, i). P e) es))"
proof (induction es)
  case Nil
  then show ?case by simp
next
  case (Cons x xs)
  obtain e i where x: "x = (e, i)" by (cases x)
  have "Some None \<in> set (map f (x # xs)) \<longleftrightarrow> f (e, i) = Some None \<or> Some None \<in> set (map f xs)"
    by (auto simp: x)
  also have "\<dots> \<longleftrightarrow> (P e \<and> im_phoneNumber e = None) \<or>
      None \<in> set (map (\<lambda>(e, i). im_phoneNumber e) (filter (\<lambda>(e, i). P e) xs))"
    unfolding Cons.IH assms by (cases "im_phoneNumber e") simp_all
  also have "\<dots> \<longleftrightarrow> None \<in> set (map (\<lambda>(e, i). im_phoneNumber e) (filter (\<lambda>(e, i). P e) (x # xs)))"
    by (auto simp: x)
  finally show ?case .
qed

lemma effect_docs:
  assumes "\<And>e i. f (e, i) =
     (if P e then (case im_phoneNumber e of None \<Rightarrow> Some None | Some ph \<Rightarrow> Some (Some (D e i ph)))
      else None)"
    and "None \<notin> set (map (\<lambda>(e, i). im_phoneNumber e) (filter (\<lambda>(e, i). P e) es))"
  shows "posted_docs f es =
     map (\<lambda>(e, i). D e i (the (im_phoneNumber e))) (filter (\<lambda>(e, i). P e) es)"
  using assms(2)
proof (induction es)
  case Nil
  then show ?case by (simp add: posted_docs_def)
next
  case (Cons x xs)
  obtain e i where x: "x = (e, i)" by (cases x)
  have step: "posted_docs f (x # xs) =
      (case f (e, i) of Some (Some d) \<Rightarrow> [d] | _ \<Rightarrow> []) @ posted_docs f xs"
    by (simp add: posted_docs_def x split: option.splits)
  have tail: "None \<notin> set (map (\<lambda>(e, i). im_phoneNumber e) (filter (\<lambda>(e, i). P e) xs))"
    using Cons.prems by (auto simp: x split: if_splits)
  have head: "P e \<Longrightarrow> im_phoneNumber e \<noteq> None" using Cons.prems by (auto simp: x)
  show ?case
    unfolding step Cons.IH [OF tail] assms(1)
    using head by (cases "im_phoneNumber e") (auto simp: x)
qed

lemma zip_uuid: "zip xs (map uuid ns) = map (\<lambda>(e, n). (e, uuid n)) (zip xs ns)"
  by (simp add: zip_map2)

lemma currentStatus_closed_iff:
  "currentStatus (accountStatusMap items) c = CLOSED \<longleftrightarrow>
     (grouped items c = [] \<or> ttype (last (sort_key createdAt (grouped items c))) = OUT)"
  by (cases "ttype (last (sort_key createdAt (grouped items c)))")
     (simp_all add: currentStatus_def accountStatusMap_eq status_of_tx_def lastTx_of_def)

lemma filter_uuid:
  "filter (\<lambda>(e, i). P e) (map (\<lambda>(e, n). (e, uuid n)) ps) =
     map (\<lambda>(e, n). (e, uuid n)) (filter (\<lambda>(e, n). P e) ps)"
  by (induction ps) auto


lemma handleImport_posting:
  assumes mode: "mode = ADD_STOCK \<and> f = add_stock_effect items ts \<or>
           mode = CALCULATE_USAGE \<and> f = usage_effect items ts"
    and f: "\<And>e i. f (e, i) =
     (if P e then (case im_phoneNumber e of None \<Rightarrow> Some None | Some ph \<Rightarrow> Some (Some (D e i ph)))
      else None)"
  shows "handleImport uuid ts items imported mode =
     (let due = filter (\<lambda>(e, n). P e) (zip imported [0..<length imported])
      in if None \<in> set (map (\<lambda>(e, n). im_phoneNumber e) due) then ImportThrew
         else if due = [] then NoNewRecords
         else if batch_limit < length due then CommitRefused
         else Synced (map (\<lambda>(e, n). D e (uuid n) (the (im_phoneNumber e))) due))"
proof -
  let ?es = "zip imported (map uuid [0..<length imported])"
  let ?ns = "zip imported [0..<length imported]"
  have fil: "filter (\<lambda>(e, i). P e) ?es = map (\<lambda>(e, n). (e, uuid n)) (filter (\<lambda>(e, n). P e) ?ns)"
    unfolding zip_uuid by (rule filter_uuid)
  have thr: "Some None \<in> set (map f ?es) \<longleftrightarrow>
      None \<in> set (map (\<lambda>(e, n). im_phoneNumber e) (filter (\<lambda>(e, n). P e) ?ns))"
    unfolding effect_throws [of f P D, OF f] fil
    by (simp add: comp_def case_prod_unfold)
  have docs: "posted_docs f ?es =
      map (\<lambda>(e, n). D e (uuid n) (the (im_phoneNumber e))) (filter (\<lambda>(e, n). P e) ?ns)"
    if "None \<notin> set (map (\<lambda>(e, n). im_phoneNumber e) (filter (\<lambda>(e, n). P e) ?ns))"
  proof -
    have "None \<notin> set (map (\<lambda>(e, i). im_phoneNumber e) (filter (\<lambda>(e, i). P e) ?es))"
      using that unfolding fil by (simp add: comp_def case_prod_unfold)
    from effect_docs [of f P D, OF f this]
    show ?thesis unfolding fil by (simp add: comp_def case_prod_unfold)
  qed
  have eff: "handleImport uuid ts items imported mode =
     (if Some None \<in> set (map f ?es) then ImportThrew
      else if posted_docs f ?es = [] then NoNewRecords
      else if batch_limit < length (posted_docs f ?es) then CommitRefused
      else Synced (posted_docs f ?es))"
    using handleImport_effects [OF mode, of uuid imported] by (simp add: Let_def)
  show ?thesis
  proof (cases "None \<in> set (map (\<lambda>(e, n). im_phoneNumber e) (filter (\<lambda>(e, n). P e) ?ns))")
    case True
    then show ?thesis unfolding eff thr Let_def by (simp only: if_True)
  next
    case False
    show ?thesis unfolding eff thr Let_def docs [OF False] using False
      by (simp only: if_False map_is_Nil_conv length_map)
  qed
qed


text \<open>
  Claim C5. In ADD\_STOCK mode the batch holds one new IN transaction for each imported
  entry whose code's status is CLOSED, in the order of the entries, each a copy of its
  entry with the new identifier and the import's timestamp, and nothing for an entry whose
  code is OPEN; the batch is committed when it is not empty. A code is CLOSED when it has
  no transaction or its most recent one is OUT. When an entry that would be posted has an
  undefined phone number, \<open>batch.set\<close> throws and nothing is committed; when more entries
  would be posted than the store's batch limit, the store refuses the commit.
\<close>

theorem add_stock_posts_only_for_closed_codes:
  "handleImport uuid ts items imported ADD_STOCK =
     (let closed = filter (\<lambda>(e, n). currentStatus (accountStatusMap items) (im_code e) = CLOSED)
                     (zip imported [0..<length imported])
      in if None \<in> set (map (\<lambda>(e, n). im_phoneNumber e) closed) then ImportThrew
         else if closed = [] then NoNewRecords
         else if batch_limit < length closed then CommitRefused
         else Synced (map (\<lambda>(e, n).
                \<lparr>item_id = uuid n, date = im_date e, code = im_code e, provider = im_provider e,
                 phoneNumber = the (im_phoneNumber e), amount = im_amount e, ttype = IN,
                 orderNumber = im_orderNumber e, createdAt = ts, createdBy = im_createdBy e\<rparr>)
                closed))
   \<and> (currentStatus (accountStatusMap items) c = CLOSED \<longleftrightarrow>
        (grouped items c = [] \<or> ttype (last (sort_key createdAt (grouped items c))) = OUT))"
  using handleImport_posting [of ADD_STOCK "add_stock_effect items ts" items ts _ _ uuid imported,
      OF _ add_effect_eq]
    currentStatus_closed_iff [of items c]
  by simp





text \<open>
  Away from the tolerance the rounding of the subtraction decides. With a balance of 100.01
  and an ending balance of 100 the difference is 0.010000000000005116, above the double
  0.01, and an OUT of 0.01 is posted; in exact arithmetic the difference would be 1/100 and
  nothing would be posted. With an app balance of 100.05 and a system balance of 100 the
  difference is 0.04999999999999716, below the double 0.05, and the audit says MATCH. The
  double 1.005 lies below 1.005 and rounds to 1.00. An entry with an undefined phone number
  that is due for posting makes the import throw.
\<close>

lemma usage_import_posts_rounded_difference:
  "handleImport example_uuid 9 [mk_item ''a'' ''C101'' IN (round64 (10001 / 100)) 1]
     [mk_entry ''C101'' 100] CALCULATE_USAGE =
   Synced [\<lparr>item_id = ''u'', date = ''02-Jan-2025'', code = ''C101'', provider = ''Celcom'',
            phoneNumber = ''0123'', amount = round64 (1 / 100), ttype = OUT,
            orderNumber = None, createdAt = 9, createdBy = None\<rparr>]
   \<and> usage_diff [mk_item ''a'' ''C101'' IN (round64 (10001 / 100)) 1] (mk_entry ''C101'' 100)
       = 703687441777 / 70368744177664"
  by code_simp

lemma audit_matches_rounded_difference:
  "handleImport example_uuid 9 [mk_item ''a'' ''C101'' IN (round64 (10005 / 100)) 1]
     [mk_entry ''C101'' 100] AUDIT_SYSTEM =
   AuditReport
     [\<lparr>ar_code = ''C101'', ar_provider = ''Celcom'', ar_phoneNumber = Some ''0123'',
       systemBalance = 100, appBalance = round64 (10005 / 100),
       difference = 3518437208883 / 70368744177664, ar_status = MATCH\<rparr>]"
  by code_simp

lemma toFixed2_rounds_the_double: "toFixed2 (round64 (1005 / 1000)) = 1"
  by code_simp

lemma usage_import_throws_on_undefined_phone:
  "handleImport example_uuid 9 [mk_item ''a'' ''C101'' IN 100 1]
     [(mk_entry ''C101'' 0)\<lparr>im_phoneNumber := None\<rparr>] CALCULATE_USAGE = ImportThrew"
  by code_simp

text \<open>An import of 501 entries, all due for posting, is refused by the store.\<close>

lemma add_stock_import_refused_above_limit:
  "handleImport uuid ts [] (replicate 501 (mk_entry ''C900'' 1)) ADD_STOCK = CommitRefused"
proof -
  let ?imp = "replicate 501 (mk_entry ''C900'' 1)"
  let ?ns = "zip ?imp [0..<length ?imp]"
  have closed: "currentStatus (accountStatusMap []) c = CLOSED" for c
    by (simp add: currentStatus_def accountStatusMap_def transactionsByCode_def)
  have fil: "filter (\<lambda>(e, n). currentStatus (accountStatusMap []) (im_code e) = CLOSED) ?ns = ?ns"
    by (simp add: closed)
  have len: "length ?ns = 501" by simp
  have ph: "None \<notin> set (map (\<lambda>(e, n). im_phoneNumber e) ?ns)"
    by (auto simp: mk_entry_def dest!: set_zip_leftD)
  have ne: "?ns \<noteq> []" using len by (metis length_0_conv zero_neq_numeral)
  show ?thesis
    using handleImport_posting [of ADD_STOCK "add_stock_effect [] ts" "[]" ts _ _ uuid ?imp,
        OF _ add_effect_eq]
    unfolding Let_def fil using ph ne len by (simp add: batch_limit_def)
qed

subsection \<open>Manual import parsing\<close>

lemma last_dropWhile: "dropWhile P xs \<noteq> [] \<Longrightarrow> last (dropWhile P xs) = last xs"
  by (induction xs) (auto split: if_splits)

lemma trim_ends:
  assumes "trim s \<noteq> []"
  shows "\<not> is_space (hd (trim s)) \<and> \<not> is_space (last (trim s))"
proof -
  let ?u = "dropWhile is_space s"
  let ?v = "dropWhile is_space (rev ?u)"
  have t: "trim s = rev ?v" by (simp add: trim_def)
  have v: "?v \<noteq> []" using assms t by simp
  have u: "?u \<noteq> []"
  proof
    assume "?u = []"
    then have "?v = []" by (metis dropWhile.simps(1) rev.simps(1))
    with v show False by (rule notE)
  qed
  have "last (trim s) = hd ?v" using v by (simp add: t last_rev)
  moreover have "\<not> is_space (hd ?v)" using v by (rule hd_dropWhile)
  moreover have "hd (trim s) = last ?v" using v by (simp add: t hd_rev)
  moreover have "last ?v = last (rev ?u)" using v by (rule last_dropWhile)
  moreover have "last (rev ?u) = hd ?u" using u by (simp add: last_rev)
  moreover have "\<not> is_space (hd ?u)" using u by (rule hd_dropWhile)
  ultimately show ?thesis by simp
qed

lemma split_ws_pieces:
  "s \<noteq> [] \<Longrightarrow> \<not> is_space (last s) \<Longrightarrow>
     split_ws s \<noteq> [] \<and> [] \<notin> set (tl (split_ws s)) \<and> (hd (split_ws s) = [] \<longleftrightarrow> is_space (hd s))"
proof (induction s rule: split_ws.induct)
  case 1
  then show ?case by simp
next
  case (2 c cs)
  show ?case
  proof (cases "is_space c")
    case True
    let ?r = "dropWhile is_space cs"
    from True "2.prems" have cs: "cs \<noteq> []" "\<not> is_space (last cs)" by (auto split: if_splits)
    have "last cs \<in> set cs" using cs(1) by simp
    then have r: "?r \<noteq> []" using cs(2) by auto
    then have lr: "\<not> is_space (last ?r)" using cs(2) by (simp add: last_dropWhile)
    have hr: "\<not> is_space (hd ?r)" using r by (rule hd_dropWhile)
    from "2.IH"(1) [OF True r lr] hr
    have "split_ws ?r \<noteq> []" "[] \<notin> set (tl (split_ws ?r))" "hd (split_ws ?r) \<noteq> []" by auto
    then have "[] \<notin> set (split_ws ?r)" by (cases "split_ws ?r") auto
    then show ?thesis using True by simp
  next
    case False
    show ?thesis
    proof (cases "cs = []")
      case True
      then show ?thesis using False by simp
    next
      case ne: False
      then have "\<not> is_space (last cs)" using "2.prems" by simp
      from "2.IH"(2) [OF False ne this] show ?thesis
        using False by (cases "split_ws cs") auto
    qed
  qed
qed

lemma fields_nonempty: "[] \<notin> set (line_fields l)"
proof (cases "trim l = []")
  case True
  then show ?thesis by (simp add: line_fields_def)
next
  case False
  from trim_ends [OF False] split_ws_pieces [OF False]
  have "split_ws (trim l) \<noteq> []" "[] \<notin> set (tl (split_ws (trim l)))" "hd (split_ws (trim l)) \<noteq> []"
    by auto
  then have "[] \<notin> set (split_ws (trim l))" by (cases "split_ws (trim l)") auto
  then show ?thesis using False by (simp add: line_fields_def)
qed

lemma field_nth_nonempty: "i < length (line_fields l) \<Longrightarrow> line_fields l ! i \<noteq> []"
  using fields_nonempty [of l] by (metis nth_mem)

lemma fields_blank: "trim l = [] \<Longrightarrow> line_fields l = []"
  by (simp add: line_fields_def)

lemma fields_split: "trim l \<noteq> [] \<Longrightarrow> split_ws (trim l) = line_fields l"
  by (simp add: line_fields_def)

lemma last_nth: "n \<le> length xs \<Longrightarrow> 0 < n \<Longrightarrow> xs ! (length xs - Suc 0) = last xs"
  by (cases "xs = []") (simp_all add: last_conv_nth)

lemma parse_audit_None:
  "parse_line AUDIT_SYSTEM d l = None \<longleftrightarrow>
     length (line_fields l) < 3 \<or> \<not> numeric (filter (\<lambda>c. c \<noteq> CHR '','') (last (line_fields l)))"
proof (cases "trim l = []")
  case True
  then show ?thesis by (simp add: parse_line_def fields_blank)
next
  case False
  then show ?thesis
    using last_nth [of 3 "line_fields l"]
    by (auto simp: parse_line_def fields_split Let_def numeric_def)
qed

lemma parse_usage:
  "parse_line CALCULATE_USAGE d l =
     (if length (line_fields l) < 2 then None
      else Some \<lparr>p_date = d, p_code = line_fields l ! 0, p_provider = line_fields l ! 1,
                 p_phoneNumber = (if 2 < length (line_fields l) then Some (line_fields l ! 2) else None),
                 p_amount = (if 4 \<le> length (line_fields l) \<and> numeric (last (line_fields l))
                             then parseFloat (last (line_fields l)) else Finite 0)\<rparr>)"
proof (cases "trim l = []")
  case True
  then show ?thesis by (simp add: parse_line_def fields_blank)
next
  case False
  have ne: "line_fields l \<noteq> []" using False split_ws_pieces [OF False] trim_ends [OF False]
    by (simp add: line_fields_def)
  show ?thesis
    using False ne field_nth_nonempty [of 0 l] field_nth_nonempty [of 1 l]
    using last_nth [of 4 "line_fields l"]
    by (auto simp: parse_line_def fields_split Let_def numeric_def at_index_def)
qed

lemma parse_add:
  "parse_line ADD_STOCK d l =
     (if length (line_fields l) < 5 then None
      else Some \<lparr>p_date = line_fields l ! 0, p_code = line_fields l ! 1, p_provider = line_fields l ! 2,
                 p_phoneNumber = Some (line_fields l ! 3), p_amount = parseFloat (line_fields l ! 4)\<rparr>)"
proof (cases "trim l = []")
  case True
  then show ?thesis by (simp add: parse_line_def fields_blank)
next
  case False
  then show ?thesis
    by (simp add: parse_line_def fields_split Let_def)
qed

lemma map_filter_concat:
  "List.map_filter f xs = concat (map (\<lambda>x. case f x of None \<Rightarrow> [] | Some y \<Rightarrow> [y]) xs)"
  by (induction xs) (simp_all split: option.splits)

lemma map_filter_Nil_iff: "List.map_filter f xs = [] \<longleftrightarrow> (\<forall>x \<in> set xs. f x = None)"
  by (induction xs) (auto split: option.splits)

text \<open>
  Claim C6, amended. A field is numeric when \<open>parseFloat\<close> reads a number at its start. In
  AUDIT\_SYSTEM mode a line is skipped exactly when it has fewer than 3 fields or its last
  field, commas removed, is not numeric. In CALCULATE\_USAGE mode a line is skipped exactly
  when it has fewer than 2 fields; a line with 2 or 3 fields, or with a non-numeric last
  field, yields an item with amount 0. In ADD\_STOCK mode a line with fewer than 5 fields
  is skipped, and a line with at least 5 fields and a numeric fifth field yields an item.
  A blank line has no field. Skipping a line does not stop the parse: the imported items
  are those of the lines that yield one, in order, and the error is reported exactly when
  no line yields an item.
\<close>

theorem manual_parse_skips:
  "(parse_line AUDIT_SYSTEM d l = None \<longleftrightarrow>
      length (line_fields l) < 3 \<or> \<not> numeric (filter (\<lambda>c. c \<noteq> CHR '','') (last (line_fields l))))
   \<and> (parse_line CALCULATE_USAGE d l = None \<longleftrightarrow> length (line_fields l) < 2)
   \<and> (2 \<le> length (line_fields l) \<longrightarrow>
        (\<exists>p. parse_line CALCULATE_USAGE d l = Some p
           \<and> p_code p = line_fields l ! 0 \<and> p_provider p = line_fields l ! 1
           \<and> p_amount p = (if 4 \<le> length (line_fields l) \<and> numeric (last (line_fields l))
                            then parseFloat (last (line_fields l)) else Finite 0)))
   \<and> (length (line_fields l) < 5 \<longrightarrow> parse_line ADD_STOCK d l = None)
   \<and> (5 \<le> length (line_fields l) \<and> numeric (line_fields l ! 4) \<longrightarrow>
        (\<exists>p. parse_line ADD_STOCK d l = Some p \<and> p_amount p = parseFloat (line_fields l ! 4)))
   \<and> ((\<exists>msg. handleManualParse mode d txt = ParseError msg) \<longleftrightarrow>
        (\<forall>ln \<in> set (split_nl (trim txt)). parse_line mode d ln = None))
   \<and> (\<forall>ps m. handleManualParse mode d txt = Imported ps m \<longrightarrow>
        m = mode \<and>
        ps = concat (map (\<lambda>ln. case parse_line mode d ln of None \<Rightarrow> [] | Some p \<Rightarrow> [p])
                       (split_nl (trim txt))))"
proof -
  have h1: "(\<exists>msg. handleManualParse mode d txt = ParseError msg) \<longleftrightarrow>
        (\<forall>ln \<in> set (split_nl (trim txt)). parse_line mode d ln = None)"
    by (simp add: handleManualParse_def Let_def map_filter_Nil_iff)
  have h2: "m = mode \<and>
        ps = concat (map (\<lambda>ln. case parse_line mode d ln of None \<Rightarrow> [] | Some p \<Rightarrow> [p])
                       (split_nl (trim txt)))"
    if "handleManualParse mode d txt = Imported ps m" for ps m
    using that by (auto simp: handleManualParse_def Let_def map_filter_concat split: if_splits)
  show ?thesis
    using h1 h2 parse_audit_None [of d l] by (simp add: parse_usage parse_add)
qed

theorem manual_parse_skips_witness:
  "5 \<le> length (line_fields ''2025-01-01 C101 Celcom 0123 50'')
   \<and> numeric (line_fields ''2025-01-01 C101 Celcom 0123 50'' ! 4)
   \<and> (\<exists>p. parse_line ADD_STOCK ''03-Nov-2026'' ''2025-01-01 C101 Celcom 0123 50'' = Some p
          \<and> p_amount p = Finite 50)
   \<and> (\<exists>p. parse_line CALCULATE_USAGE ''03-Nov-2026'' ''2025-01-01 C101 Celcom 0123 50'' = Some p
          \<and> p_code p = ''2025-01-01'' \<and> p_amount p = Finite 50)
   \<and> length (line_fields ''C101 Celcom'') < 5
   \<and> parse_line ADD_STOCK ''03-Nov-2026'' ''C101 Celcom'' = None
   \<and> parse_line AUDIT_SYSTEM ''03-Nov-2026'' ''C101 Celcom'' = None
   \<and> (\<exists>ps. handleManualParse CALCULATE_USAGE ''03-Nov-2026'' example_text
               = Imported ps CALCULATE_USAGE \<and> length ps = 2)"
proof -
  let ?d = "''03-Nov-2026''"
  let ?l5 = "''2025-01-01 C101 Celcom 0123 50''"
  let ?l2 = "''C101 Celcom''"
  note long = manual_parse_skips [of ?d ?l5 CALCULATE_USAGE example_text]
  note short = manual_parse_skips [of ?d ?l2 CALCULATE_USAGE example_text]
  have f5: "line_fields ?l5 = [''2025-01-01'', ''C101'', ''Celcom'', ''0123'', ''50'']"
    and f2: "line_fields ?l2 = [''C101'', ''Celcom'']"
    by code_simp+
  have n50: "parseFloat ''50'' = Finite 50" by code_simp
  have a: "5 \<le> length (line_fields ?l5) \<and> numeric (line_fields ?l5 ! 4)"
    by (simp add: f5 numeric_def n50)
  with long have b: "\<exists>p. parse_line ADD_STOCK ?d ?l5 = Some p \<and> p_amount p = Finite 50"
    by (auto simp: f5 n50)
  from a long have c: "\<exists>p. parse_line CALCULATE_USAGE ?d ?l5 = Some p
      \<and> p_code p = ''2025-01-01'' \<and> p_amount p = Finite 50"
    by (auto simp: f5 n50 numeric_def)
  have d: "length (line_fields ?l2) < 5" by (simp add: f2)
  with short have e: "parse_line ADD_STOCK ?d ?l2 = None" by blast
  from short have g: "parse_line AUDIT_SYSTEM ?d ?l2 = None" by (simp add: f2)
  have lines: "split_nl (trim example_text) = [?l2, ''   '', ''C102 Digi 0199 7.5'']"
    by code_simp
  have first: "parse_line CALCULATE_USAGE ?d ?l2 \<noteq> None" using short by (simp add: f2)
  then have "\<not> (\<forall>ln \<in> set (split_nl (trim example_text)). parse_line CALCULATE_USAGE ?d ln = None)"
    by (simp add: lines)
  with short have "\<not> (\<exists>msg. handleManualParse CALCULATE_USAGE ?d example_text = ParseError msg)"
    by blast
  then obtain ps m where imp: "handleManualParse CALCULATE_USAGE ?d example_text = Imported ps m"
    by (cases "handleManualParse CALCULATE_USAGE ?d example_text") auto
  with short have m: "m = CALCULATE_USAGE"
    and ps: "ps = concat (map (\<lambda>ln. case parse_line CALCULATE_USAGE ?d ln of None \<Rightarrow> [] | Some p \<Rightarrow> [p])
                       (split_nl (trim example_text)))"
    by blast+
  have blank: "parse_line CALCULATE_USAGE ?d ''   '' = None" by code_simp
  have third: "parse_line CALCULATE_USAGE ?d ''C102 Digi 0199 7.5'' \<noteq> None" by code_simp
  have "length ps = 2" using first third by (auto simp: ps lines blank)
  with imp m have h: "\<exists>ps. handleManualParse CALCULATE_USAGE ?d example_text
               = Imported ps CALCULATE_USAGE \<and> length ps = 2" by simp
  show ?thesis using a b c d e g h by simp
qed

text \<open>
  Claim C6 as stated fails in CALCULATE\_USAGE mode, whose format has four fields: a line
  with two fields yields an item with amount 0 and no phone number, and a line whose
  amount field is not numeric yields an item with amount 0; neither is skipped.
\<close>

theorem usage_mode_keeps_short_lines:
  "length (line_fields ''C101 Celcom'') = 2
   \<and> parse_line CALCULATE_USAGE ''03-Nov-2026'' ''C101 Celcom'' =
       Some \<lparr>p_date = ''03-Nov-2026'', p_code = ''C101'', p_provider = ''Celcom'',
             p_phoneNumber = None, p_amount = Finite 0\<rparr>
   \<and> parseFloat ''abc'' = NaN
   \<and> parse_line CALCULATE_USAGE ''03-Nov-2026'' ''C101 Celcom 0123 abc'' =
       Some \<lparr>p_date = ''03-Nov-2026'', p_code = ''C101'', p_provider = ''Celcom'',
             p_phoneNumber = Some ''0123'', p_amount = Finite 0\<rparr>
   \<and> handleManualParse CALCULATE_USAGE ''03-Nov-2026'' ''C101 Celcom'' =
       Imported [\<lparr>p_date = ''03-Nov-2026'', p_code = ''C101'', p_provider = ''Celcom'',
                   p_phoneNumber = None, p_amount = Finite 0\<rparr>] CALCULATE_USAGE"
  by code_simp

text \<open>
  In ADD\_STOCK mode the fifth field is not tested: a line with five fields and a
  non-numeric amount yields an item whose amount is \<open>NaN\<close>, where the audit mode skips such
  a line and the usage mode reads the amount as 0.
\<close>

lemma add_stock_keeps_nan_amount:
  "parse_line ADD_STOCK ''03-Nov-2026'' ''2025-01-01 C101 Celcom 0123 abc'' =
     Some \<lparr>p_date = ''2025-01-01'', p_code = ''C101'', p_provider = ''Celcom'',
           p_phoneNumber = Some ''0123'', p_amount = NaN\<rparr>"
  by code_simp

subsection \<open>Restore\<close>

lemma upload_loop_append:
  "upload_loop c b n st (xs @ ys) =
     (case upload_loop c b n st xs of
        (Inl e, st1) \<Rightarrow> (Inl e, st1)
      | (Inr (b1, n1), st1) \<Rightarrow> upload_loop c b1 n1 st1 ys)"
  by (induction c b n st xs rule: upload_loop.induct)
     (auto split: option.splits sum.splits prod.splits)

lemma upload_loop_below:
  "\<not> committed b \<Longrightarrow> n + length data < 450 \<Longrightarrow> keyed data \<Longrightarrow>
     upload_loop c b n st data =
       (Inr (b\<lparr>mutations := mutations b @ map (set_op c) data\<rparr>, n + length data), st)"
proof (induction data arbitrary: b n)
  case Nil
  then show ?case by simp
next
  case (Cons d ds)
  from Cons.prems obtain k where k: "doc_key d = Some k" by (auto simp: keyed_def)
  let ?b1 = "b\<lparr>mutations := mutations b @ [SetDoc c k d]\<rparr>"
  have "upload_loop c b n st (d # ds) = upload_loop c ?b1 (n + 1) st ds"
    using Cons.prems k by (simp add: batch_set_def)
  also have "\<dots> = (Inr (?b1\<lparr>mutations := mutations ?b1 @ map (set_op c) ds\<rparr>, n + 1 + length ds), st)"
    using Cons.prems by (intro Cons.IH) (simp_all add: keyed_def)
  finally show ?case by (simp add: set_op_def k)
qed

lemma upload_loop_commits:
  assumes "\<not> committed b" "n + length data = 450" "data \<noteq> []" "keyed data"
    and "length (mutations b) = n"
  shows "upload_loop c b n st data =
       (Inr (b\<lparr>mutations := mutations b @ map (set_op c) data, committed := True\<rparr>, 0),
        store_commit st (mutations b @ map (set_op c) data))"
proof -
  from assms(3) obtain xs d where data: "data = xs @ [d]" by (metis rev_exhaust)
  from assms(4) data obtain k where k: "doc_key d = Some k" and kx: "keyed xs"
    by (auto simp: keyed_def)
  have len: "n + length xs = 449" using assms(2) data by simp
  let ?b1 = "b\<lparr>mutations := mutations b @ map (set_op c) xs\<rparr>"
  have first: "upload_loop c b n st xs = (Inr (?b1, 449), st)"
    using upload_loop_below [OF assms(1) _ kx, of n c st] len by simp
  have "upload_loop c ?b1 449 st [d] =
      (Inr (?b1\<lparr>mutations := mutations ?b1 @ [SetDoc c k d], committed := True\<rparr>, 0),
       store_commit st (mutations ?b1 @ [SetDoc c k d]))"
    using assms(1,5) k len by (simp add: batch_set_def batch_commit_def batch_limit_def)
  then show ?thesis
    unfolding data upload_loop_append first by (simp add: set_op_def k)
qed

lemma upload_loop_committed:
  "committed b \<Longrightarrow> doc_key d \<noteq> None \<Longrightarrow> upload_loop c b n st (d # ds) = (Inl BatchAlreadyCommitted, st)"
  by (auto simp: batch_set_def)

lemma upload_loop_over:
  assumes "\<not> committed b" "n < 450" "450 < n + length data" "keyed data"
    and "length (mutations b) = n"
  shows "upload_loop c b n st data =
       (Inl BatchAlreadyCommitted, store_commit st (mutations b @ map (set_op c) (take (450 - n) data)))"
proof -
  let ?xs = "take (450 - n) data" and ?ys = "drop (450 - n) data"
  have data: "data = ?xs @ ?ys" by simp
  have lx: "n + length ?xs = 450" using assms(2,3) by simp
  have nx: "?xs \<noteq> []" using assms(2,3) by auto
  have kx: "keyed ?xs" using assms(4) unfolding keyed_def list_all_iff by (meson in_set_takeD)
  have "length ?ys \<noteq> 0" using assms(2,3) by simp
  then obtain d ds where ys: "?ys = d # ds" by (cases ?ys) simp_all
  have "d \<in> set data" by (metis ys in_set_dropD list.set_intros(1))
  then have kd: "doc_key d \<noteq> None" using assms(4) by (simp add: keyed_def list_all_iff)
  have "upload_loop c b n st (?xs @ ?ys) =
      (Inl BatchAlreadyCommitted, store_commit st (mutations b @ map (set_op c) ?xs))"
    unfolding upload_loop_append upload_loop_commits [OF assms(1) lx nx kx assms(5)] ys
    using kd by (simp add: upload_loop_committed del: upload_loop.simps)
  then show ?thesis by simp
qed

lemma uploadCollection_cases:
  assumes "keyed data"
  shows "uploadCollection c data st =
     (if data = [] then (None, st)
      else if length data \<le> 450 then (None, store_commit st (map (set_op c) data))
      else (Some BatchAlreadyCommitted, store_commit st (map (set_op c) (take 450 data))))"
proof -
  consider "data = []" | "data \<noteq> []" "length data < 450" | "length data = 450" | "450 < length data"
    by linarith
  then show ?thesis
  proof cases
    case 1
    then show ?thesis by (simp add: uploadCollection_def)
  next
    case 2
    then show ?thesis
      using upload_loop_below [of writeBatch 0 data c st] assms
      by (simp add: uploadCollection_def writeBatch_def batch_commit_def batch_limit_def)
  next
    case 3
    then have "data \<noteq> []" by auto
    then show ?thesis
      using upload_loop_commits [of writeBatch 0 data c st] assms 3
      by (simp add: uploadCollection_def writeBatch_def)
  next
    case 4
    then have "data \<noteq> []" by auto
    then show ?thesis
      using upload_loop_over [of writeBatch 0 data c st] assms 4
      by (simp add: uploadCollection_def writeBatch_def)
  qed
qed

lemma example_uuid_inj: "example_uuid i = example_uuid j \<longleftrightarrow> i = j"
proof
  assume "example_uuid i = example_uuid j"
  then have "length (example_uuid i) = length (example_uuid j)" by simp
  then show "i = j" by (simp add: example_uuid_def)
qed simp

lemma sample_key: "doc_key (ItemDoc (mk_item (example_uuid i) c t a ts)) = Some (example_uuid i)"
  by (simp add: doc_key_def mk_item_def example_uuid_def)

lemma keyed_sample: "keyed (sample_docs n)"
  by (simp add: keyed_def sample_docs_def list_all_iff sample_key)

lemma take_sample: "m \<le> n \<Longrightarrow> take m (sample_docs n) = sample_docs m"
  by (simp add: sample_docs_def take_map)

lemma upload_batches_at_most_450:
  assumes "keyed data"
  shows "\<exists>new. commit_log (snd (uploadCollection c data st)) = commit_log st @ new
           \<and> list_all (\<lambda>ops. length ops \<le> 450) new"
  unfolding uploadCollection_cases [OF assms]
  by (simp add: store_commit_def)

text \<open>
  Claim C7. Restore is meant to write each collection in batches of at most 450 operations,
  every record in exactly one committed batch. No committed batch has more than 450
  operations (lemma \<open>upload_batches_at_most_450\<close>), but \<open>uploadCollection\<close> creates one batch
  and goes on using it after its commit. For a collection of 451 records the first 450 are
  committed, the next \<open>set\<close> is refused, and the last record is in no committed batch.
\<close>

theorem restore_stops_after_first_commit:
  "length (sample_docs 451) = 451
   \<and> fst (uploadCollection ''inventory'' (sample_docs 451) empty_store) = Some BatchAlreadyCommitted
   \<and> commit_log (snd (uploadCollection ''inventory'' (sample_docs 451) empty_store))
        = [map (set_op ''inventory'') (sample_docs 450)]
   \<and> set_op ''inventory'' (last (sample_docs 451))
        \<notin> set (concat (commit_log (snd (uploadCollection ''inventory'' (sample_docs 451) empty_store))))"
proof -
  have up: "uploadCollection ''inventory'' (sample_docs 451) empty_store =
      (Some BatchAlreadyCommitted,
       store_commit empty_store (map (set_op ''inventory'') (sample_docs 450)))"
    unfolding uploadCollection_cases [OF keyed_sample]
    by (simp add: take_sample) (simp add: sample_docs_def)
  have l: "last (sample_docs 451) = ItemDoc (mk_item (example_uuid 450) ''C101'' IN 1 450)"
    by (simp add: sample_docs_def last_map)
  have "set_op ''inventory'' (last (sample_docs 451)) \<notin> set (map (set_op ''inventory'') (sample_docs 450))"
    unfolding l by (auto simp: sample_docs_def set_op_def sample_key example_uuid_inj)
  then show ?thesis
    unfolding up by (simp add: store_commit_def empty_store_def) (simp add: sample_docs_def)
qed

text \<open>
  The refused \<open>set\<close> ends the whole restore: whatever the file holds for the other
  collections, nothing after the first 450 stock items is written.
\<close>

lemma restore_aborts_after_large_inventory:
  "handleRestoreData True
     \<lparr>b_items = sample_docs 451, b_employees = es, b_schedule = ss, b_notes = ns, b_users = us\<rparr>
     empty_store =
   (Some BatchAlreadyCommitted,
    store_commit empty_store (map (set_op ''inventory'') (sample_docs 450)))"
proof -
  have "uploadCollection ''inventory'' (sample_docs 451) empty_store =
      (Some BatchAlreadyCommitted,
       store_commit empty_store (map (set_op ''inventory'') (sample_docs 450)))"
    unfolding uploadCollection_cases [OF keyed_sample]
    by (simp add: take_sample) (simp add: sample_docs_def)
  then show ?thesis by (simp add: handleRestoreData_def)
qed

subsection \<open>Reset\<close>

lemma delete_all_ok:
  "\<not> committed b \<Longrightarrow>
     delete_all c b snap = Inr (b\<lparr>mutations := mutations b @ map (\<lambda>(k, d). DeleteDoc c k) snap\<rparr>)"
proof (induction snap arbitrary: b)
  case Nil
  then show ?case by simp
next
  case (Cons x xs)
  obtain k d where x: "x = (k, d)" by (cases x)
  show ?case using Cons.prems by (simp add: x batch_delete_def Cons.IH)
qed

lemma apply_deletes:
  "foldl apply_op ds (map (\<lambda>(k, d). DeleteDoc c k) snap) =
     ds(c := filter (\<lambda>(k', d'). k' \<notin> fst ` set snap) (ds c))"
proof (induction snap arbitrary: ds)
  case Nil
  then show ?case by simp
next
  case (Cons x xs)
  obtain k d where x: "x = (k, d)" by (cases x)
  have step: "apply_op ds (DeleteDoc c k) = ds(c := filter (\<lambda>(k', d'). k' \<noteq> k) (ds c))"
    by (simp add: apply_op_def)
  have "foldl apply_op ds (map (\<lambda>(k, d). DeleteDoc c k) (x # xs)) =
      foldl apply_op (apply_op ds (DeleteDoc c k)) (map (\<lambda>(k, d). DeleteDoc c k) xs)"
    by (simp add: x)
  also have "\<dots> = (apply_op ds (DeleteDoc c k))
      (c := filter (\<lambda>(k', d'). k' \<notin> fst ` set xs) (apply_op ds (DeleteDoc c k) c))"
    by (rule Cons.IH)
  also have "\<dots> = ds(c := filter (\<lambda>(k', d'). k' \<notin> fst ` set (x # xs)) (ds c))"
    unfolding step by (auto simp: x fun_eq_iff case_prod_unfold intro: filter_cong)
  finally show ?case .
qed

lemma clearColl_large:
  "batch_limit < length (docs st c) \<Longrightarrow> clearColl c st = (Some TooManyWrites, st)"
  by (simp add: clearColl_def Let_def delete_all_ok writeBatch_def batch_commit_def)

lemma clearColl_small:
  assumes "length (docs st c) \<le> batch_limit"
  shows "fst (clearColl c st) = None \<and> docs (snd (clearColl c st)) = (docs st)(c := [])"
proof -
  have "filter (\<lambda>(k', d'). k' \<notin> fst ` set (docs st c)) (docs st c) = []"
    by (force simp: filter_empty_conv)
  then show ?thesis
    using assms
    by (auto simp: clearColl_def Let_def delete_all_ok writeBatch_def batch_commit_def
        store_commit_def apply_deletes)
qed

lemma clearColl_frame: "c' \<noteq> c \<Longrightarrow> docs (snd (clearColl c st)) c' = docs st c'"
  using clearColl_small [of st c] clearColl_large [of st c]
  by (cases "length (docs st c) \<le> batch_limit") auto

lemma clear_all_frame: "c' \<notin> set cs \<Longrightarrow> docs (snd (clear_all cs st)) c' = docs st c'"
proof (induction cs arbitrary: st)
  case Nil
  then show ?case by simp
next
  case (Cons c cs)
  obtain r st1 where s: "clearColl c st = (r, st1)" by (cases "clearColl c st")
  have d: "docs st1 c' = docs st c'" using clearColl_frame [of c' c st] Cons.prems s by simp
  show ?case
  proof (cases r)
    case None
    then show ?thesis using Cons.IH [of st1] Cons.prems s d by simp
  next
    case (Some e)
    then show ?thesis using s d by simp
  qed
qed

lemma clear_all_small:
  "\<forall>c \<in> set cs. length (docs st c) \<le> batch_limit \<Longrightarrow>
   fst (clear_all cs st) = None \<and>
   docs (snd (clear_all cs st)) = (\<lambda>c. if c \<in> set cs then [] else docs st c)"
proof (induction cs arbitrary: st)
  case Nil
  then show ?case by simp
next
  case (Cons c cs)
  have c: "length (docs st c) \<le> batch_limit" using Cons.prems by simp
  obtain st1 where s: "clearColl c st = (None, st1)"
    using clearColl_small [OF c] by (cases "clearColl c st") auto
  have d: "docs st1 = (docs st)(c := [])" using clearColl_small [OF c] s by simp
  have "\<forall>c' \<in> set cs. length (docs st1 c') \<le> batch_limit" using Cons.prems by (simp add: d)
  from Cons.IH [OF this] show ?case by (auto simp: s d)
qed

text \<open>
  What holds of the reset: the users collection is never touched, and when none of the
  four collections holds more documents than the batch limit, all four are emptied.
\<close>

lemma reset_never_touches_users:
  "docs (snd (handleResetData confirmed st)) ''users'' = docs st ''users''"
  using clear_all_frame [of "''users''" "[''inventory'', ''schedule'', ''notes'', ''employees'']" st]
  by (cases confirmed) (simp_all add: handleResetData_def)

lemma reset_clears_small_collections:
  assumes "\<forall>c \<in> set [''inventory'', ''schedule'', ''notes'', ''employees'']. length (docs st c) \<le> batch_limit"
  shows "fst (handleResetData True st) = None
     \<and> docs (snd (handleResetData True st)) =
         (\<lambda>c. if c \<in> set [''inventory'', ''schedule'', ''notes'', ''employees''] then [] else docs st c)"
  using clear_all_small [OF assms] by (simp add: handleResetData_def)

text \<open>
  Claim C8. A confirmed reset is meant to delete every document of the inventory, schedule,
  notes and employees collections and to leave the users collection as it was. The users
  collection is never touched (lemma \<open>reset_never_touches_users\<close>), and collections within
  the batch limit are emptied (lemma \<open>reset_clears_small_collections\<close>). But \<open>clearColl\<close> puts
  all deletes of a collection into one batch, where \<open>uploadCollection\<close> commits every 450
  operations: with 501 stock items the store refuses the batch, nothing is deleted, and the
  collections after inventory are not reached.
\<close>

theorem reset_fails_on_large_collection:
  "length (docs large_store ''inventory'') = 501
   \<and> length (docs large_store ''notes'') = 1
   \<and> handleResetData True large_store = (Some TooManyWrites, large_store)
   \<and> docs (snd (handleResetData True large_store)) ''inventory'' \<noteq> []
   \<and> docs (snd (handleResetData True large_store)) ''notes'' \<noteq> []"
proof -
  have inv: "length (docs large_store ''inventory'') = 501"
    by (simp add: large_store_def sample_collection_def)
  have memo: "length (docs large_store ''notes'') = 1"
    by (simp add: large_store_def)
  have "clearColl ''inventory'' large_store = (Some TooManyWrites, large_store)"
    by (rule clearColl_large) (simp add: inv batch_limit_def)
  then have r: "handleResetData True large_store = (Some TooManyWrites, large_store)"
    by (simp add: handleResetData_def)
  show ?thesis unfolding r using inv memo by auto
qed

subsection \<open>Login\<close>

lemma pairs_fst: "map fst letter_pairs = ''ABCDEFGHIJKLMNOPQRSTUVWXYZ''"
  by code_simp

lemma pairs_distinct_fst: "distinct (map fst letter_pairs)"
  by code_simp

lemma pairs_distinct_snd: "distinct (map snd letter_pairs)"
  by code_simp

lemma pairs_disjoint: "list_all (\<lambda>l. l \<notin> set (map fst letter_pairs)) (map snd letter_pairs)"
  by code_simp

lemma lower_upper:
  "list_all (\<lambda>c. lower_char c = (case map_of letter_pairs c of None \<Rightarrow> c | Some l \<Rightarrow> l))
     ''ABCDEFGHIJKLMNOPQRSTUVWXYZ''"
  by code_simp

lemma lower_char_alt:
  "lower_char c = (case map_of letter_pairs c of None \<Rightarrow> c | Some l \<Rightarrow> l)"
proof (cases "c \<in> set ''ABCDEFGHIJKLMNOPQRSTUVWXYZ''")
  case False
  then have "c \<notin> fst ` set letter_pairs" using pairs_fst by (metis set_map)
  then have "map_of letter_pairs c = None" by (simp add: map_of_eq_None_iff)
  then show ?thesis using False by (simp add: lower_char_def)
next
  case True
  then show ?thesis using lower_upper unfolding list_all_iff by blast
qed


lemma distinct_snd_inj:
  "distinct (map snd ps) \<Longrightarrow> (a, l) \<in> set ps \<Longrightarrow> (b, l) \<in> set ps \<Longrightarrow> a = b"
  by (induction ps) (auto simp: image_iff)

lemma pair_lookup: "(a, l) \<in> set letter_pairs \<longleftrightarrow> map_of letter_pairs a = Some l"
  using pairs_distinct_fst by (rule map_of_eq_Some_iff [symmetric])

lemma pair_value_not_key: "(a, l) \<in> set letter_pairs \<Longrightarrow> map_of letter_pairs l = None"
proof -
  assume "(a, l) \<in> set letter_pairs"
  then have "l \<in> set (map snd letter_pairs)" by force
  then have "l \<notin> set (map fst letter_pairs)" using pairs_disjoint unfolding list_all_iff by blast
  then show ?thesis by (simp add: map_of_eq_None_iff)
qed

lemma lower_char_eq_iff: "lower_char c = lower_char d \<longleftrightarrow> same_letter c d"
proof
  assume eq: "lower_char c = lower_char d"
  show "same_letter c d"
  proof (cases "map_of letter_pairs c")
    case None
    show ?thesis
    proof (cases "map_of letter_pairs d")
      case None
      with \<open>map_of letter_pairs c = None\<close> eq show ?thesis
        by (simp add: lower_char_alt same_letter_def)
    next
      case (Some l)
      with None eq have "c = l" by (simp add: lower_char_alt)
      with Some show ?thesis by (simp add: same_letter_def pair_lookup)
    qed
  next
    case (Some l)
    show ?thesis
    proof (cases "map_of letter_pairs d")
      case None
      with Some eq have "l = d" by (simp add: lower_char_alt)
      with Some show ?thesis by (simp add: same_letter_def pair_lookup)
    next
      case (Some l')
      with \<open>map_of letter_pairs c = Some l\<close> eq have "l = l'" by (simp add: lower_char_alt)
      with Some \<open>map_of letter_pairs c = Some l\<close>
      have "(c, l) \<in> set letter_pairs" "(d, l) \<in> set letter_pairs" by (simp_all add: pair_lookup)
      with pairs_distinct_snd have "c = d" by (rule distinct_snd_inj)
      then show ?thesis by (simp add: same_letter_def)
    qed
  qed
next
  assume "same_letter c d"
  then consider "c = d" | "(c, d) \<in> set letter_pairs" | "(d, c) \<in> set letter_pairs"
    unfolding same_letter_def by blast
  then show "lower_char c = lower_char d"
  proof cases
    case 1
    then show ?thesis by simp
  next
    case 2
    then show ?thesis using pair_value_not_key [OF 2] by (simp add: lower_char_alt pair_lookup)
  next
    case 3
    then show ?thesis using pair_value_not_key [OF 3] by (simp add: lower_char_alt pair_lookup)
  qed
qed

lemma toLowerCase_eq_iff: "toLowerCase s = toLowerCase t \<longleftrightarrow> eq_ignore_case s t"
proof -
  have "map lower_char s = map lower_char t \<longleftrightarrow> list_all2 (\<lambda>c d. lower_char c = lower_char d) s t"
    by (induction s arbitrary: t) (auto simp: list_all2_Cons1 Cons_eq_map_conv)
  then show ?thesis
    by (simp add: toLowerCase_def eq_ignore_case_def lower_char_eq_iff [abs_def])
qed

lemma matches_iff: "matches form u \<longleftrightarrow> eq_ignore_case (username u) (f_username form)"
  by (simp add: matches_def toLowerCase_eq_iff)

lemma handleLogin_cases:
  "handleLogin users form =
     (case List.find (matches form) users of
        Some user \<Rightarrow>
          if password user = f_password form then (form, Some user)
          else (form\<lparr>f_error := Some ''Invalid username or password.'', f_password := []\<rparr>, None)
      | None \<Rightarrow> (form\<lparr>f_error := Some ''Invalid username or password.'', f_password := []\<rparr>, None))"
proof -
  have "matches form = (\<lambda>u. toLowerCase (username u) = toLowerCase (f_username form))"
    by (simp add: matches_def fun_eq_iff)
  then show ?thesis by (simp add: handleLogin_def Let_def split: option.splits)
qed

lemma login_success_iff:
  "snd (handleLogin users form) = Some u \<longleftrightarrow>
     List.find (matches form) users = Some u \<and> password u = f_password form"
  by (cases "List.find (matches form) users") (auto simp: handleLogin_cases)

lemma login_failure:
  "snd (handleLogin users form) = None \<Longrightarrow>
     fst (handleLogin users form) =
       form\<lparr>f_error := Some ''Invalid username or password.'', f_password := []\<rparr>"
  by (cases "List.find (matches form) users") (auto simp: handleLogin_cases split: if_splits)

lemma login_success_form:
  "snd (handleLogin users form) = Some u \<Longrightarrow> fst (handleLogin users form) = form"
  by (cases "List.find (matches form) users") (auto simp: handleLogin_cases split: if_splits)

lemma find_first_index:
  "(\<exists>u. List.find P xs = Some u \<and> Q u) \<longleftrightarrow>
     (\<exists>i < length xs. P (xs ! i) \<and> (\<forall>j < i. \<not> P (xs ! j)) \<and> Q (xs ! i))"
proof
  assume "\<exists>u. List.find P xs = Some u \<and> Q u"
  then obtain u where "List.find P xs = Some u" "Q u" by blast
  then obtain i where "i < length xs" "P (xs ! i)" "u = xs ! i" "\<forall>j < i. \<not> P (xs ! j)"
    unfolding find_Some_iff by blast
  with \<open>Q u\<close> show "\<exists>i < length xs. P (xs ! i) \<and> (\<forall>j < i. \<not> P (xs ! j)) \<and> Q (xs ! i)"
    by blast
next
  assume "\<exists>i < length xs. P (xs ! i) \<and> (\<forall>j < i. \<not> P (xs ! j)) \<and> Q (xs ! i)"
  then obtain i where i: "i < length xs" "P (xs ! i)" "\<forall>j < i. \<not> P (xs ! j)" "Q (xs ! i)"
    by blast
  then have "List.find P xs = Some (xs ! i)" unfolding find_Some_iff by blast
  with i(4) show "\<exists>u. List.find P xs = Some u \<and> Q u" by blast
qed

text \<open>
  Claim C9. \<open>onLogin\<close> is called with a user exactly when some user of the list has a user
  name equal to the entered one up to case and the first such user's stored password
  equals the entered password exactly; the user passed is that first match. Otherwise the
  error is shown and the password field is emptied.
\<close>

theorem login_first_match_exact_password:
  "((\<exists>u. snd (handleLogin users form) = Some u) \<longleftrightarrow>
      (\<exists>i < length users. eq_ignore_case (username (users ! i)) (f_username form)
          \<and> (\<forall>j < i. \<not> eq_ignore_case (username (users ! j)) (f_username form))
          \<and> password (users ! i) = f_password form))
   \<and> (\<forall>u. snd (handleLogin users form) = Some u \<longrightarrow>
         u \<in> set users \<and> eq_ignore_case (username u) (f_username form)
         \<and> password u = f_password form
         \<and> fst (handleLogin users form) = form)
   \<and> (snd (handleLogin users form) = None \<longrightarrow>
         fst (handleLogin users form) =
           form\<lparr>f_error := Some ''Invalid username or password.'', f_password := []\<rparr>)"
proof (intro conjI allI impI)
  have "(\<exists>u. snd (handleLogin users form) = Some u) \<longleftrightarrow>
      (\<exists>i < length users. matches form (users ! i) \<and> (\<forall>j < i. \<not> matches form (users ! j))
          \<and> password (users ! i) = f_password form)"
    unfolding login_success_iff
    by (rule find_first_index [where Q = "\<lambda>u. password u = f_password form"])
  then show "(\<exists>u. snd (handleLogin users form) = Some u) \<longleftrightarrow>
      (\<exists>i < length users. eq_ignore_case (username (users ! i)) (f_username form)
          \<and> (\<forall>j < i. \<not> eq_ignore_case (username (users ! j)) (f_username form))
          \<and> password (users ! i) = f_password form)"
    unfolding matches_iff .
next
  fix u assume u: "snd (handleLogin users form) = Some u"
  then have f: "List.find (matches form) users = Some u" and p: "password u = f_password form"
    unfolding login_success_iff by simp_all
  from f obtain i where "i < length users" "matches form (users ! i)" "u = users ! i"
    unfolding find_Some_iff by blast
  then show "u \<in> set users" "eq_ignore_case (username u) (f_username form)"
    by (simp_all add: matches_iff)
  show "password u = f_password form" by (rule p)
  show "fst (handleLogin users form) = form" using u by (rule login_success_form)
next
  assume "snd (handleLogin users form) = None"
  then show "fst (handleLogin users form) =
      form\<lparr>f_error := Some ''Invalid username or password.'', f_password := []\<rparr>"
    by (rule login_failure)
qed

text \<open>
  The list holds alice, Weng and weng, in this order. The entry WENG does not match alice,
  whose password it has, and logs in as Weng; with the password of weng it fails, since
  the first match is Weng.
\<close>

theorem login_first_match_exact_password_witness:
  "\<not> eq_ignore_case ''alice'' ''WENG'' \<and> eq_ignore_case ''Weng'' ''WENG''
   \<and> snd (handleLogin example_users (example_form ''WENG'' ''pw'')) = Some (mk_user ''1'' ''Weng'' ''pw'')
   \<and> fst (handleLogin example_users (example_form ''WENG'' ''pw'')) = example_form ''WENG'' ''pw''
   \<and> snd (handleLogin example_users (example_form ''WENG'' ''other'')) = None
   \<and> fst (handleLogin example_users (example_form ''WENG'' ''other'')) =
        \<lparr>f_username = ''WENG'', f_password = [], f_error = Some ''Invalid username or password.''\<rparr>"
proof -
  let ?ok = "example_form ''WENG'' ''pw''" and ?bad = "example_form ''WENG'' ''other''"
  let ?m = "\<lambda>i. eq_ignore_case (username (example_users ! i)) ''WENG''"
  have m: "\<not> ?m 0" "?m 1" by code_simp+
  have names: "\<not> eq_ignore_case ''alice'' ''WENG''" "eq_ignore_case ''Weng'' ''WENG''"
    by code_simp+
  have fu: "f_username ?ok = ''WENG''" "f_username ?bad = ''WENG''"
    "f_password ?ok = ''pw''" "f_password ?bad = ''other''"
    by (simp_all add: example_form_def)
  have u1: "example_users ! 1 = mk_user ''1'' ''Weng'' ''pw''" "length example_users = 3"
    by (simp_all add: example_users_def)
  have pw: "password (example_users ! 0) = ''pw''" "password (example_users ! 1) = ''pw''"
    by (simp_all add: example_users_def mk_user_def)
  have before: "\<forall>j < 1. \<not> ?m j" using m(1) by simp
  have "\<exists>i < length example_users. eq_ignore_case (username (example_users ! i)) (f_username ?ok)
      \<and> (\<forall>j < i. \<not> eq_ignore_case (username (example_users ! j)) (f_username ?ok))
      \<and> password (example_users ! i) = f_password ?ok"
    unfolding fu using m(2) before pw(2) u1(2) by (intro exI [of _ 1]) simp
  with login_first_match_exact_password [of example_users ?ok] obtain u where
    u: "snd (handleLogin example_users ?ok) = Some u" by blast
  with login_first_match_exact_password [of example_users ?ok]
  have uu: "u \<in> set example_users" "eq_ignore_case (username u) ''WENG''" "password u = ''pw''"
    "fst (handleLogin example_users ?ok) = ?ok" unfolding fu by blast+
  have "u = mk_user ''1'' ''Weng'' ''pw''"
  proof -
    from uu(1) consider "u = mk_user ''0'' ''alice'' ''pw''" | "u = mk_user ''1'' ''Weng'' ''pw''"
      | "u = mk_user ''2'' ''weng'' ''other''"
      by (auto simp: example_users_def)
    then show ?thesis
    proof cases
      case 1
      then have "username u = ''alice''" by (simp add: mk_user_def)
      with uu(2) names(1) show ?thesis by simp
    next
      case 2
      then show ?thesis .
    next
      case 3
      then have "password u = ''other''" by (simp add: mk_user_def)
      with uu(3) show ?thesis by simp
    qed
  qed
  with u uu have good: "snd (handleLogin example_users ?ok) = Some (mk_user ''1'' ''Weng'' ''pw'')"
    "fst (handleLogin example_users ?ok) = ?ok" by simp_all
  have "\<not> (\<exists>i < length example_users. eq_ignore_case (username (example_users ! i)) (f_username ?bad)
      \<and> (\<forall>j < i. \<not> eq_ignore_case (username (example_users ! j)) (f_username ?bad))
      \<and> password (example_users ! i) = f_password ?bad)"
  proof
    assume "\<exists>i < length example_users. eq_ignore_case (username (example_users ! i)) (f_username ?bad)
      \<and> (\<forall>j < i. \<not> eq_ignore_case (username (example_users ! j)) (f_username ?bad))
      \<and> password (example_users ! i) = f_password ?bad"
    then obtain i where i: "?m i" "\<forall>j < i. \<not> ?m j" "password (example_users ! i) = ''other''"
      unfolding fu by blast
    from i(1) m(1) have "i \<noteq> 0" by metis
    moreover from i(2) m(2) have "\<not> 1 < i" by metis
    ultimately have "i = 1" by simp
    with i(3) pw(2) show False by simp
  qed
  with login_first_match_exact_password [of example_users ?bad]
  have n: "snd (handleLogin example_users ?bad) = None"
    by (cases "snd (handleLogin example_users ?bad)") auto
  with login_first_match_exact_password [of example_users ?bad]
  have "fst (handleLogin example_users ?bad) =
      ?bad\<lparr>f_error := Some ''Invalid username or password.'', f_password := []\<rparr>" by blast
  then have "fst (handleLogin example_users ?bad) =
      \<lparr>f_username = ''WENG'', f_password = [], f_error = Some ''Invalid username or password.''\<rparr>"
    by (simp add: example_form_def)
  with good n names show ?thesis by simp
qed

subsection \<open>Backup export\<close>

text \<open>
  Claim C10. The exported object has exactly the five keys items, employees, schedule,
  notes and users, each holding the current collection of that name; read back, it gives
  the restore all five collections.
\<close>

theorem export_bundles_all_collections:
  "map fst (exportData s) = [''items'', ''employees'', ''schedule'', ''notes'', ''users'']
   \<and> map_of (exportData s) ''items'' = Some (map ItemDoc (st_items s))
   \<and> map_of (exportData s) ''employees'' = Some (map EmployeeDoc (st_employees s))
   \<and> map_of (exportData s) ''schedule'' = Some (map DayDoc (st_schedule s))
   \<and> map_of (exportData s) ''notes'' = Some (map NoteDoc (st_notes s))
   \<and> map_of (exportData s) ''users'' = Some (map UserDoc (st_users s))
   \<and> parse_backup (exportData s) =
        \<lparr>b_items = map ItemDoc (st_items s), b_employees = map EmployeeDoc (st_employees s),
         b_schedule = map DayDoc (st_schedule s), b_notes = map NoteDoc (st_notes s),
         b_users = Some (map UserDoc (st_users s))\<rparr>"
  by (simp add: exportData_def parse_backup_def)

end
